theory Spec2Isabelle
  imports Complex_Main "HOL-Library.Word"
begin

section \<open>Particle filter of tracking\_object.ipynb\<close>

text \<open>
  The notebook keeps the particle cloud in a numpy array of shape
  \<open>(NUM_PARTICLES, 4)\<close> of float64: column 0 is the x position, column 1 the y
  position, columns 2 and 3 the x and y velocity. A row is modelled as a record, the array
  as the list of its rows.

  Numbers. Every entry of the arrays the loop builds is a finite float64, and a finite
  float64 is a real number, so array entries are modelled as \<open>real\<close>. Comparison,
  \<open>min\<close>, \<open>max\<close>, equality tests and truncation by \<open>int\<close> are exact on floats and so
  are modelled exactly. In \<open>resample\<close>, where rounding and overflow decide what is
  returned, every float64 operation (\<open>np.sum\<close>, the division by it, the sums inside
  \<open>np.random.choice\<close>, \<open>np.mean\<close>) is modelled as IEEE 754 performs it, with
  results of type \<open>float64\<close> below. In the other functions addition, subtraction,
  multiplication and powers are the exact operations on the reals: rounding and overflow
  are not modelled there.

  Randomness. The seeded generator is modelled by the sequence of uniform variates it
  yields from its current state, a function \<open>nat \<Rightarrow> real\<close>; numpy's contract is that
  each variate lies in \<open>[0, 1)\<close>.
\<close>

subsection \<open>Constants\<close>

definition HEIGHT :: int where
  "HEIGHT = 406"

definition WIDTH :: int where
  "WIDTH = 722"

definition NUM_PARTICLES :: nat where
  "NUM_PARTICLES = 5000"

definition VEL_RANGE :: real where
  "VEL_RANGE = 1 / 2"

subsection \<open>Data\<close>

record particle =
  pos_x :: real
  pos_y :: real
  vel_x :: real
  vel_y :: real

text \<open>The exceptions the modelled code can raise.\<close>

datatype error = IndexError | ValueError | OverflowError

text \<open>
  A float64 value that may be non-finite: the result of a float64 operation.
\<close>

datatype float64 = Fin real | PInf | NInf | NaN

text \<open>
  A video frame as OpenCV delivers it: an array of shape \<open>(rows, cols, 3)\<close> of uint8.
\<close>

type_synonym pixel = "8 word \<times> 8 word \<times> 8 word"

record frame =
  shape_rows :: nat
  shape_cols :: nat
  pixel_at :: "nat \<Rightarrow> nat \<Rightarrow> pixel"

subsection \<open>Python and numpy primitives\<close>

text \<open>\<open>int(v)\<close> of a finite float: truncation towards zero.\<close>

definition py_int :: "real \<Rightarrow> int" where
  "py_int r = (if 0 \<le> r then \<lfloor>r\<rfloor> else \<lceil>r\<rceil>)"

text \<open>
  \<open>int(v)\<close> of a numpy float64 scalar: \<open>ValueError\<close> on NaN, \<open>OverflowError\<close> on
  an infinity.
\<close>

fun py_int_f64 :: "float64 \<Rightarrow> error + int" where
  "py_int_f64 (Fin r) = Inr (py_int r)"
| "py_int_f64 NaN = Inl ValueError"
| "py_int_f64 PInf = Inl OverflowError"
| "py_int_f64 NInf = Inl OverflowError"

text \<open>
  An integer index into an axis of length \<open>n\<close>: negative indices count from the end,
  anything outside \<open>[-n, n)\<close> raises \<open>IndexError\<close>.
\<close>

definition np_index :: "nat \<Rightarrow> int \<Rightarrow> error + nat" where
  "np_index n i =
     (if 0 \<le> i \<and> i < int n then Inr (nat i)
      else if - int n \<le> i \<and> i < 0 then Inr (nat (int n + i))
      else Inl IndexError)"

text \<open>
  \<open>for i in range(...)\<close> over a body that may raise: the state is threaded through
  the iterations and the first exception ends the loop.
\<close>

fun for_range :: "nat list \<Rightarrow> (nat \<Rightarrow> 's \<Rightarrow> error + 's) \<Rightarrow> 's \<Rightarrow> error + 's" where
  "for_range [] body s = Inr s"
| "for_range (i # rest) body s =
     (case body i s of Inl e \<Rightarrow> Inl e | Inr s' \<Rightarrow> for_range rest body s')"

subsection \<open>apply\_velocity\<close>

text \<open>
  \<^verbatim>\<open>
  def apply_velocity(particles):
      particles[ :, 0 ] += particles[ :, 2 ]
      particles[ :, 1 ] += particles[ :, 3 ]
      return particles
  \<close>
\<close>

definition apply_velocity :: "particle list \<Rightarrow> particle list" where
  "apply_velocity particles =
     map (\<lambda>p. p\<lparr>pos_x := pos_x p + vel_x p, pos_y := pos_y p + vel_y p\<rparr>) particles"

subsection \<open>enforce\_edges\<close>

text \<open>
  \<^verbatim>\<open>
  def enforce_edges(particles):
      for i in range(NUM_PARTICLES):
          particles[i,0] = max(0, min(WIDTH-1, particles[i,0]))
          particles[i,1] = max(0, min(HEIGHT-1, particles[i,1]))
      return particles
  \<close>
  \<open>particles[i,0]\<close> raises \<open>IndexError\<close> when the array has fewer than \<open>i + 1\<close>
  rows. Python's \<open>min(a, b)\<close> is \<open>b\<close> if \<open>b < a\<close> and \<open>a\<close> otherwise, and
  \<open>max(a, b)\<close> is \<open>b\<close> if \<open>b > a\<close> and \<open>a\<close> otherwise; on real numbers these are
  the values of \<open>min\<close> and \<open>max\<close>.
\<close>

definition enforce_edges_body :: "nat \<Rightarrow> particle list \<Rightarrow> error + particle list" where
  "enforce_edges_body i particles =
     (if i < length particles then
        let particles1 = particles[i := (particles ! i)
              \<lparr>pos_x := max 0 (min (real_of_int (WIDTH - 1)) (pos_x (particles ! i)))\<rparr>];
            particles2 = particles1[i := (particles1 ! i)
              \<lparr>pos_y := max 0 (min (real_of_int (HEIGHT - 1)) (pos_y (particles1 ! i)))\<rparr>]
        in Inr particles2
      else Inl IndexError)"

definition enforce_edges :: "particle list \<Rightarrow> error + particle list" where
  "enforce_edges particles = for_range [0..<NUM_PARTICLES] enforce_edges_body particles"

text \<open>What one pass of the loop body does to a row.\<close>

definition clamp_row :: "particle \<Rightarrow> particle" where
  "clamp_row p =
     p\<lparr>pos_x := max 0 (min (real_of_int (WIDTH - 1)) (pos_x p)),
       pos_y := max 0 (min (real_of_int (HEIGHT - 1)) (pos_y p))\<rparr>"

subsection \<open>compute\_errors\<close>

text \<open>
  \<^verbatim>\<open>
  def compute_errors(particles, frame):
      errors = np.zeros(NUM_PARTICLES)
      TARGET_COLOUR = np.array( (189,105,82) )
      for i in range(NUM_PARTICLES):
          x = int(particles[i,0])
          y = int(particles[i,1])
          pixel_colour = frame[ y, x, : ]
          errors[i] = np.sum( ( TARGET_COLOUR - pixel_colour )**2 )
      return errors
  \<close>
  \<open>TARGET_COLOUR\<close> is an array of signed machine integers and the pixel one of uint8;
  numpy promotes the difference to the signed type, so the three differences, their
  squares and the sum (at most \<open>3 * 255\<^sup>2\<close>) are computed without wrap-around.
\<close>

definition squared_colour_distance :: "pixel \<Rightarrow> int" where
  "squared_colour_distance pixel_colour =
     (case pixel_colour of (c0, c1, c2) \<Rightarrow>
        (189 - uint c0)\<^sup>2 + (105 - uint c1)\<^sup>2 + (82 - uint c2)\<^sup>2)"

definition compute_errors_body ::
    "particle list \<Rightarrow> frame \<Rightarrow> nat \<Rightarrow> real list \<Rightarrow> error + real list" where
  "compute_errors_body particles fr i errors =
     (if i < length particles then
        let x = py_int (pos_x (particles ! i));
            y = py_int (pos_y (particles ! i))
        in (case np_index (shape_rows fr) y of
              Inl e \<Rightarrow> Inl e
            | Inr r \<Rightarrow>
                (case np_index (shape_cols fr) x of
                   Inl e \<Rightarrow> Inl e
                 | Inr c \<Rightarrow>
                     Inr (errors[i := real_of_int (squared_colour_distance (pixel_at fr r c))])))
      else Inl IndexError)"

definition compute_errors :: "particle list \<Rightarrow> frame \<Rightarrow> error + real list" where
  "compute_errors particles fr =
     for_range [0..<NUM_PARTICLES] (compute_errors_body particles fr)
       (replicate NUM_PARTICLES 0)"

subsection \<open>compute\_weights\<close>

text \<open>
  \<^verbatim>\<open>
  def compute_weights(errors):
      weights = np.max(errors) - errors
      weights[
          (particles[ :,0 ] == 0) |
          (particles[ :,0 ] == WIDTH-1) |
          (particles[ :,1 ] == 0) |
          (particles[ :,1 ] == HEIGHT-1)
      ] = 0.0
      weights = weights**4
      return weights
  \<close>
  \<open>particles\<close> is not a parameter: the function reads the notebook's global, which in the
  main loop is the array \<open>enforce_edges\<close> returned and \<open>compute_errors\<close> scored. The
  model takes it as its first argument. \<open>np.max\<close> of an empty array raises
  \<open>ValueError\<close>; assignment through a boolean mask whose length differs from the
  array's raises \<open>IndexError\<close>.
\<close>

definition np_max :: "real list \<Rightarrow> error + real" where
  "np_max a = (case a of [] \<Rightarrow> Inl ValueError | v # rest \<Rightarrow> Inr (fold max rest v))"

definition edge_mask :: "particle list \<Rightarrow> bool list" where
  "edge_mask particles =
     map (\<lambda>p. pos_x p = 0 \<or> pos_x p = real_of_int (WIDTH - 1) \<or>
              pos_y p = 0 \<or> pos_y p = real_of_int (HEIGHT - 1)) particles"

definition np_mask_assign :: "real list \<Rightarrow> bool list \<Rightarrow> real \<Rightarrow> error + real list" where
  "np_mask_assign a msk v =
     (if length msk = length a then Inr (map (\<lambda>(w, m). if m then v else w) (zip a msk))
      else Inl IndexError)"

definition compute_weights :: "particle list \<Rightarrow> real list \<Rightarrow> error + real list" where
  "compute_weights particles errors =
     (case np_max errors of
        Inl e \<Rightarrow> Inl e
      | Inr m \<Rightarrow>
          (case np_mask_assign (map (\<lambda>e. m - e) errors) (edge_mask particles) 0 of
             Inl e \<Rightarrow> Inl e
           | Inr weights \<Rightarrow> Inr (map (\<lambda>w. w ^ 4) weights)))"

subsection \<open>float64 arithmetic\<close>

text \<open>
  In \<open>resample\<close> the results depend on how float64 operations round, so there the
  operations are modelled as IEEE 754 binary64 performs them: the exact result is rounded
  to the nearest float64, ties to the even significand; a result of magnitude
  \<open>2\<^sup>1\<^sup>0\<^sup>2\<^sup>4\<close> or more after rounding is an infinity; below \<open>2\<^sup>-\<^sup>1\<^sup>0\<^sup>2\<^sup>2\<close> the spacing
  is that of the subnormal numbers, \<open>2\<^sup>-\<^sup>1\<^sup>0\<^sup>7\<^sup>4\<close>. The sign of a zero is not modelled:
  every zero is the positive one.
\<close>

definition round_half_even :: "real \<Rightarrow> int" where
  "round_half_even q =
     (let f = \<lfloor>q\<rfloor>; d = q - real_of_int f
      in if d < 1 / 2 then f
         else if 1 / 2 < d then f + 1
         else if even f then f
         else f + 1)"

text \<open>
  The binade of a magnitude \<open>a\<close>: the exponent \<open>e\<close> with \<open>2\<^sup>e \<le> a < 2\<^sup>e\<^sup>+\<^sup>1\<close>, not
  below \<open>-1022\<close>, found by counting up.
\<close>

fun binade_search :: "nat \<Rightarrow> int \<Rightarrow> real \<Rightarrow> int" where
  "binade_search 0 e a = e"
| "binade_search (Suc fuel) e a =
     (if a < 2 powi (e + 1) then e else binade_search fuel (e + 1) a)"

definition binade :: "real \<Rightarrow> int" where
  "binade a = binade_search 2045 (- 1022) a"

definition round64 :: "real \<Rightarrow> float64" where
  "round64 v =
     (if 2 powi 1024 \<le> \<bar>v\<bar> then (if 0 < v then PInf else NInf)
      else
        let u = 2 powi (binade \<bar>v\<bar> - 52);
            r = real_of_int (round_half_even (v / u)) * u
        in if 2 powi 1024 \<le> \<bar>r\<bar> then (if 0 < v then PInf else NInf) else Fin r)"

fun f64_add :: "float64 \<Rightarrow> float64 \<Rightarrow> float64" where
  "f64_add (Fin a) (Fin b) = round64 (a + b)"
| "f64_add NaN b = NaN"
| "f64_add a NaN = NaN"
| "f64_add PInf NInf = NaN"
| "f64_add NInf PInf = NaN"
| "f64_add PInf b = PInf"
| "f64_add a PInf = PInf"
| "f64_add NInf b = NInf"
| "f64_add a NInf = NInf"

fun f64_neg :: "float64 \<Rightarrow> float64" where
  "f64_neg (Fin a) = Fin (- a)"
| "f64_neg PInf = NInf"
| "f64_neg NInf = PInf"
| "f64_neg NaN = NaN"

definition f64_sub :: "float64 \<Rightarrow> float64 \<Rightarrow> float64" where
  "f64_sub a b = f64_add a (f64_neg b)"

text \<open>
  Division does not raise: a zero divisor gives NaN for \<open>0 / 0\<close> and an infinity with
  the sign of the dividend otherwise (numpy issues a \<open>RuntimeWarning\<close> only).
\<close>

fun f64_div :: "float64 \<Rightarrow> float64 \<Rightarrow> float64" where
  "f64_div (Fin a) (Fin b) =
     (if b \<noteq> 0 then round64 (a / b)
      else if a = 0 then NaN
      else if 0 < a then PInf
      else NInf)"
| "f64_div NaN b = NaN"
| "f64_div a NaN = NaN"
| "f64_div (Fin a) b = Fin 0"
| "f64_div PInf (Fin b) = (if 0 \<le> b then PInf else NInf)"
| "f64_div NInf (Fin b) = (if 0 \<le> b then NInf else PInf)"
| "f64_div a b = NaN"

fun f64_abs :: "float64 \<Rightarrow> float64" where
  "f64_abs (Fin a) = Fin \<bar>a\<bar>"
| "f64_abs PInf = PInf"
| "f64_abs NInf = PInf"
| "f64_abs NaN = NaN"

text \<open>Comparisons: every comparison with a NaN is false.\<close>

fun f64_less :: "float64 \<Rightarrow> float64 \<Rightarrow> bool" where
  "f64_less (Fin a) (Fin b) = (a < b)"
| "f64_less NaN b = False"
| "f64_less a NaN = False"
| "f64_less a NInf = False"
| "f64_less PInf b = False"
| "f64_less a PInf = True"
| "f64_less NInf b = True"

fun f64_le :: "float64 \<Rightarrow> float64 \<Rightarrow> bool" where
  "f64_le (Fin a) (Fin b) = (a \<le> b)"
| "f64_le NaN b = False"
| "f64_le a NaN = False"
| "f64_le NInf b = True"
| "f64_le a PInf = True"
| "f64_le a NInf = False"
| "f64_le PInf b = False"

subsection \<open>Sums\<close>

text \<open>
  \<open>np.sum\<close> and \<open>np.mean\<close> of a float64 array add by numpy's pairwise summation:
  \<^verbatim>\<open>
  static double pairwise_sum(char *a, npy_intp n, npy_intp stride)
  {
      if (n < 8) {
          res = 0.;
          for (i = 0; i < n; i++) res += a[i];
          return res;
      }
      else if (n <= PW_BLOCKSIZE) {          /* 128 */
          r[0] = a[0]; ... r[7] = a[7];
          for (i = 8; i < n - (n % 8); i += 8) {
              r[0] += a[i + 0]; ... r[7] += a[i + 7];
          }
          res = ((r[0] + r[1]) + (r[2] + r[3])) +
                ((r[4] + r[5]) + (r[6] + r[7]));
          for (; i < n; i++) res += a[i];
          return res;
      }
      else {
          n2 = n / 2;
          n2 -= n2 % 8;
          return pairwise_sum(a, n2, stride) +
                 pairwise_sum(a + n2 * stride, n - n2, stride);
      }
  }
  \<close>
\<close>

function accumulate8 :: "float64 list \<Rightarrow> float64 list \<Rightarrow> float64 list \<times> float64 list" where
  "accumulate8 r a =
     (if 8 \<le> length a then accumulate8 (map2 f64_add r (take 8 a)) (drop 8 a)
      else (r, a))"
  by pat_completeness auto
termination
  by (relation "measure (\<lambda>(r, a). length a)") auto

declare accumulate8.simps [simp del]

definition pw_split :: "nat \<Rightarrow> nat" where
  "pw_split n = n div 2 - (n div 2) mod 8"

function pairwise_sum :: "float64 list \<Rightarrow> float64" where
  "pairwise_sum a =
     (if length a < 8 then fold (\<lambda>v res. f64_add res v) a (Fin 0)
      else if length a \<le> 128 then
        (case accumulate8 (take 8 a) (drop 8 a) of
           (r, rest) \<Rightarrow>
             fold (\<lambda>v res. f64_add res v) rest
               (f64_add
                  (f64_add (f64_add (r ! 0) (r ! 1)) (f64_add (r ! 2) (r ! 3)))
                  (f64_add (f64_add (r ! 4) (r ! 5)) (f64_add (r ! 6) (r ! 7)))))
      else
        f64_add (pairwise_sum (take (pw_split (length a)) a))
                (pairwise_sum (drop (pw_split (length a)) a)))"
  by pat_completeness auto
termination
  by (relation "measure length") (auto simp: pw_split_def)

declare pairwise_sum.simps [simp del]

text \<open>
  The reduction starts from the identity 0, to which the pairwise sum is added; adding 0
  changes no float64.
\<close>

definition np_sum :: "real list \<Rightarrow> float64" where
  "np_sum a = pairwise_sum (map Fin a)"

text \<open>
  \<open>np.mean\<close> is the sum divided by the number of entries; of an empty array it is NaN
  (with a warning).
\<close>

definition np_mean :: "real list \<Rightarrow> float64" where
  "np_mean a = (if a = [] then NaN else f64_div (np_sum a) (Fin (real (length a))))"

subsection \<open>resample\<close>

text \<open>
  \<^verbatim>\<open>
  def resample(particles, weights):
      probabilities = weights / np.sum(weights)
      indices = np.random.choice(
          NUM_PARTICLES,
          size=NUM_PARTICLES,
          p=probabilities)
      particles = particles[ indices, : ]
      x = np.mean(particles[:,0])
      y = np.mean(particles[:,1])
      return particles, (int(x),int(y))
  \<close>
\<close>

definition probabilities :: "real list \<Rightarrow> float64 list" where
  "probabilities weights = map (\<lambda>w. f64_div (Fin w) (np_sum weights)) weights"

text \<open>
  \<open>np.random.choice(a, size, p)\<close> with replacement, as numpy implements it:
  \<^verbatim>\<open>
  if pop_size <= 0 and np.prod(size) != 0:
      raise ValueError("a must be greater than 0 unless no samples are taken")
  atol = np.sqrt(np.finfo(np.float64).eps)
  if p.size != pop_size:
      raise ValueError("'a' and 'p' must have same size")
  p_sum = kahan_sum(pix, d)
  if np.isnan(p_sum):
      raise ValueError("probabilities contain NaN")
  if np.logical_or.reduce(p < 0):
      raise ValueError("probabilities are not non-negative")
  if abs(p_sum - 1.) > atol:
      raise ValueError("probabilities do not sum to 1")
  cdf = p.cumsum()
  cdf /= cdf[-1]
  uniform_samples = self.random_sample(shape)
  idx = cdf.searchsorted(uniform_samples, side='right')
  \<close>
  with
  \<^verbatim>\<open>
  cdef double kahan_sum(double *darr, npy_intp n):
      sum = darr[0]
      c = 0.0
      for i from 1 <= i < n:
          y = darr[i] - c
          t = sum + y
          c = (t-sum) - y
          sum = t
      return sum
  \<close>
  \<open>sqrt(eps)\<close> is \<open>2\<^sup>-\<^sup>2\<^sup>6\<close>. Past the checks the entries of \<open>p\<close> are finite and
  non-negative, so \<open>cdf\<close> is nondecreasing, and the insertion point
  \<open>searchsorted(u, side='right')\<close> is the number of its entries that are at most \<open>u\<close>.
  \<open>kahan_sum\<close> is only called on a non-empty array here (\<open>a\<close> is
  \<open>NUM_PARTICLES\<close>); on the empty list the model gives 0, which the last check rejects.
\<close>

fun kahan_loop :: "float64 \<Rightarrow> float64 \<Rightarrow> float64 list \<Rightarrow> float64" where
  "kahan_loop s c [] = s"
| "kahan_loop s c (d # rest) =
     (let y = f64_sub d c;
          t = f64_add s y;
          c' = f64_sub (f64_sub t s) y
      in kahan_loop t c' rest)"

definition kahan_sum :: "float64 list \<Rightarrow> float64" where
  "kahan_sum darr = (case darr of [] \<Rightarrow> Fin 0 | d # rest \<Rightarrow> kahan_loop d (Fin 0) rest)"

fun cumsum_from :: "float64 \<Rightarrow> float64 list \<Rightarrow> float64 list" where
  "cumsum_from acc [] = []"
| "cumsum_from acc (v # rest) = f64_add acc v # cumsum_from (f64_add acc v) rest"

definition np_cumsum :: "float64 list \<Rightarrow> float64 list" where
  "np_cumsum a = (case a of [] \<Rightarrow> [] | v # rest \<Rightarrow> v # cumsum_from v rest)"

definition searchsorted_right :: "float64 list \<Rightarrow> real \<Rightarrow> nat" where
  "searchsorted_right a v = length (filter (\<lambda>c. f64_le c (Fin v)) a)"

definition choice_atol :: real where
  "choice_atol = 1 / 2 ^ 26"

definition random_sample :: "(nat \<Rightarrow> real) \<Rightarrow> nat \<Rightarrow> real list" where
  "random_sample rng n = map rng [0..<n]"

definition np_random_choice ::
    "nat \<Rightarrow> nat \<Rightarrow> float64 list \<Rightarrow> (nat \<Rightarrow> real) \<Rightarrow> error + nat list" where
  "np_random_choice a size' p rng =
     (if a = 0 \<and> size' \<noteq> 0 then Inl ValueError
      else if length p \<noteq> a then Inl ValueError
      else
        let p_sum = kahan_sum p in
        if p_sum = NaN then Inl ValueError
        else if list_ex (\<lambda>v. f64_less v (Fin 0)) p then Inl ValueError
        else if f64_less (Fin choice_atol) (f64_abs (f64_sub p_sum (Fin 1)))
          then Inl ValueError
        else
          let cdf = np_cumsum p;
              cdf = map (\<lambda>c. f64_div c (last cdf)) cdf;
              uniform_samples = random_sample rng size'
          in Inr (map (searchsorted_right cdf) uniform_samples))"

text \<open>
  \<open>particles[indices, :]\<close> with an array of non-negative indices: a new array with one
  row per index; an index that is not below the number of rows raises \<open>IndexError\<close>.
\<close>

definition np_take_rows :: "'a list \<Rightarrow> nat list \<Rightarrow> error + 'a list" where
  "np_take_rows rows indices =
     (if list_all (\<lambda>i. i < length rows) indices then Inr (map (nth rows) indices)
      else Inl IndexError)"

definition resample ::
    "particle list \<Rightarrow> real list \<Rightarrow> (nat \<Rightarrow> real) \<Rightarrow>
       error + (particle list \<times> (int \<times> int))" where
  "resample particles weights rng =
     (case np_random_choice NUM_PARTICLES NUM_PARTICLES (probabilities weights) rng of
        Inl e \<Rightarrow> Inl e
      | Inr indices \<Rightarrow>
          (case np_take_rows particles indices of
             Inl e \<Rightarrow> Inl e
           | Inr particles' \<Rightarrow>
               (case py_int_f64 (np_mean (map pos_x particles')) of
                  Inl e \<Rightarrow> Inl e
                | Inr x \<Rightarrow>
                    (case py_int_f64 (np_mean (map pos_y particles')) of
                       Inl e \<Rightarrow> Inl e
                     | Inr y \<Rightarrow> Inr (particles', (x, y))))))"

subsection \<open>initialize\_particles\<close>

text \<open>
  \<^verbatim>\<open>
  def initialize_particles():
      particles = np.random.rand(NUM_PARTICLES, 4)
      particles = particles * np.array( (WIDTH,HEIGHT,VEL_RANGE,VEL_RANGE) )
      particles[ :, 2:4 ] -= VEL_RANGE/2.0
      return particles
  \<close>
  \<open>np.random.rand(n, 4)\<close> fills the array row by row with uniform variates.
\<close>

definition initialize_particles :: "(nat \<Rightarrow> real) \<Rightarrow> particle list" where
  "initialize_particles rng =
     map (\<lambda>i. \<lparr>pos_x = rng (4 * i) * real_of_int WIDTH,
               pos_y = rng (4 * i + 1) * real_of_int HEIGHT,
               vel_x = rng (4 * i + 2) * VEL_RANGE - VEL_RANGE / 2,
               vel_y = rng (4 * i + 3) * VEL_RANGE - VEL_RANGE / 2\<rparr>)
       [0..<NUM_PARTICLES]"

subsection \<open>Notions used in the statements\<close>

text \<open>A position inside the frame, as boundary enforcement leaves it.\<close>

definition in_frame :: "particle \<Rightarrow> bool" where
  "in_frame p \<longleftrightarrow>
     0 \<le> pos_x p \<and> pos_x p \<le> real_of_int (WIDTH - 1) \<and>
     0 \<le> pos_y p \<and> pos_y p \<le> real_of_int (HEIGHT - 1)"

text \<open>
  The colour error of the pixel at row \<open>int(y)\<close>, column \<open>int(x)\<close>, read without
  wrap-around of the indices.
\<close>

definition particle_error :: "frame \<Rightarrow> particle \<Rightarrow> real" where
  "particle_error fr p =
     real_of_int (squared_colour_distance
       (pixel_at fr (nat (py_int (pos_y p))) (nat (py_int (pos_x p)))))"

text \<open>A generator state that yields the same variate at every draw, for concrete runs.\<close>

definition constant_rng :: "real \<Rightarrow> nat \<Rightarrow> real" where
  "constant_rng u k = u"

text \<open>A frame of the configured size in one colour, for concrete runs.\<close>

definition uniform_frame :: "pixel \<Rightarrow> frame" where
  "uniform_frame c = \<lparr>shape_rows = nat HEIGHT, shape_cols = nat WIDTH, pixel_at = (\<lambda>r c'. c)\<rparr>"

text \<open>
  A generator state that yields \<open>u\<close> at the first draw and \<open>v\<close> at every later one,
  for concrete runs.
\<close>

definition first_then_rng :: "real \<Rightarrow> real \<Rightarrow> nat \<Rightarrow> real" where
  "first_then_rng u v k = (if k = 0 then u else v)"

text \<open>The float64 just below 100: in \<open>[64, 128)\<close> float64 numbers are \<open>2\<^sup>-\<^sup>4\<^sup>6\<close> apart.\<close>

definition just_below_100 :: real where
  "just_below_100 = 100 - 1 / 2 ^ 46"

text \<open>An array of float64 numbers that are natural numbers.\<close>

abbreviation nat_floats :: "nat list \<Rightarrow> float64 list" where
  "nat_floats ks \<equiv> map (\<lambda>k. Fin (real k)) ks"

text \<open>The largest power of two that is a float64.\<close>

definition huge_weight :: real where
  "huge_weight = 2 ^ 1023"

section \<open>Properties\<close>

subsection \<open>Loops\<close>

lemma for_range_append:
  "for_range (xs @ ys) body s =
     (case for_range xs body s of Inl e \<Rightarrow> Inl e | Inr s' \<Rightarrow> for_range ys body s')"
  by (induction xs arbitrary: s) (auto split: sum.splits)

lemma NUM_PARTICLES_pos: "0 < NUM_PARTICLES"
  by (simp add: NUM_PARTICLES_def)

lemma sum_list_zeros: "sum_list (replicate n (0::real)) = 0"
  by (induction n) simp_all

subsection \<open>Boundary enforcement\<close>

lemma enforce_edges_body_clamp:
  "i < length ps \<Longrightarrow> enforce_edges_body i ps = Inr (ps[i := clamp_row (ps ! i)])"
  by (simp add: enforce_edges_body_def clamp_row_def Let_def)

lemma enforce_edges_prefix:
  "n \<le> length ps \<Longrightarrow>
     for_range [0..<n] enforce_edges_body ps = Inr (map clamp_row (take n ps) @ drop n ps)"
proof (induction n)
  case 0
  then show ?case by simp
next
  case (Suc n)
  then have n: "n < length ps" by simp
  let ?mid = "map clamp_row (take n ps) @ drop n ps"
  have len: "n < length ?mid" using n by simp
  have nth: "?mid ! n = ps ! n" using n by (simp add: nth_append)
  have "for_range [0..<Suc n] enforce_edges_body ps = enforce_edges_body n ?mid"
    using Suc.IH n by (simp add: for_range_append split: sum.splits)
  also have "\<dots> = Inr (?mid[n := clamp_row (ps ! n)])"
    using enforce_edges_body_clamp [OF len] nth by simp
  also have "?mid[n := clamp_row (ps ! n)] = map clamp_row (take (Suc n) ps) @ drop (Suc n) ps"
    using n by (simp add: list_update_append take_Suc_conv_app_nth upd_conv_take_nth_drop
        Cons_nth_drop_Suc [symmetric])
  finally show ?case .
qed

lemma enforce_edges_short:
  "length ps < NUM_PARTICLES \<Longrightarrow> enforce_edges ps = Inl IndexError"
proof -
  assume short: "length ps < NUM_PARTICLES"
  have split: "[0..<NUM_PARTICLES] = [0..<length ps] @ length ps # [Suc (length ps)..<NUM_PARTICLES]"
    using short by (metis le0 upt_add_eq_append upt_conv_Cons le_add_diff_inverse less_imp_le_nat)
  have "for_range [0..<length ps] enforce_edges_body ps = Inr (map clamp_row ps)"
    using enforce_edges_prefix [of "length ps" ps] by simp
  then show ?thesis
    unfolding enforce_edges_def split
    by (simp add: for_range_append enforce_edges_body_def)
qed

lemma enforce_edges_result:
  "NUM_PARTICLES \<le> length ps \<Longrightarrow>
     enforce_edges ps = Inr (map clamp_row (take NUM_PARTICLES ps) @ drop NUM_PARTICLES ps)"
  unfolding enforce_edges_def by (rule enforce_edges_prefix)

lemma enforce_edges_exact:
  "length ps = NUM_PARTICLES \<Longrightarrow> enforce_edges ps = Inr (map clamp_row ps)"
  using enforce_edges_result [of ps] by simp

lemma clamp_row_idem: "clamp_row (clamp_row p) = clamp_row p"
  by (simp add: clamp_row_def WIDTH_def HEIGHT_def)

lemma clamp_row_fields:
  "pos_x (clamp_row p) = max 0 (min (real_of_int (WIDTH - 1)) (pos_x p))"
  "pos_y (clamp_row p) = max 0 (min (real_of_int (HEIGHT - 1)) (pos_y p))"
  "vel_x (clamp_row p) = vel_x p"
  "vel_y (clamp_row p) = vel_y p"
  by (simp_all add: clamp_row_def)

lemma clamp_row_bounds:
  "0 \<le> pos_x (clamp_row p)" "pos_x (clamp_row p) \<le> real_of_int (WIDTH - 1)"
  "0 \<le> pos_y (clamp_row p)" "pos_y (clamp_row p) \<le> real_of_int (HEIGHT - 1)"
  by (simp_all add: clamp_row_def WIDTH_def HEIGHT_def)

text \<open>
  C3. On a particle set (an array of \<open>NUM_PARTICLES\<close> rows) \<open>enforce_edges\<close> returns
  an array of the same size in which every row has
  \<open>x = max(0, min(WIDTH-1, x))\<close> and \<open>y = max(0, min(HEIGHT-1, y))\<close> of the input
  row, so that \<open>0 \<le> x \<le> WIDTH-1\<close> and \<open>0 \<le> y \<le> HEIGHT-1\<close>, and both velocity
  components of every row are those of the input row.
\<close>

theorem enforce_edges_clamps:
  assumes "length ps = NUM_PARTICLES"
  shows "\<exists>ps'. enforce_edges ps = Inr ps' \<and> length ps' = length ps \<and>
           (\<forall>i<length ps.
              pos_x (ps' ! i) = max 0 (min (real_of_int (WIDTH - 1)) (pos_x (ps ! i))) \<and>
              pos_y (ps' ! i) = max 0 (min (real_of_int (HEIGHT - 1)) (pos_y (ps ! i))) \<and>
              0 \<le> pos_x (ps' ! i) \<and> pos_x (ps' ! i) \<le> real_of_int (WIDTH - 1) \<and>
              0 \<le> pos_y (ps' ! i) \<and> pos_y (ps' ! i) \<le> real_of_int (HEIGHT - 1) \<and>
              vel_x (ps' ! i) = vel_x (ps ! i) \<and>
              vel_y (ps' ! i) = vel_y (ps ! i))"
proof -
  have res: "enforce_edges ps = Inr (map clamp_row ps)"
    using assms by (rule enforce_edges_exact)
  have "\<forall>i<length ps.
          pos_x (map clamp_row ps ! i) = max 0 (min (real_of_int (WIDTH - 1)) (pos_x (ps ! i))) \<and>
          pos_y (map clamp_row ps ! i) = max 0 (min (real_of_int (HEIGHT - 1)) (pos_y (ps ! i))) \<and>
          0 \<le> pos_x (map clamp_row ps ! i) \<and> pos_x (map clamp_row ps ! i) \<le> real_of_int (WIDTH - 1) \<and>
          0 \<le> pos_y (map clamp_row ps ! i) \<and> pos_y (map clamp_row ps ! i) \<le> real_of_int (HEIGHT - 1) \<and>
          vel_x (map clamp_row ps ! i) = vel_x (ps ! i) \<and>
          vel_y (map clamp_row ps ! i) = vel_y (ps ! i)"
    by (simp add: clamp_row_fields WIDTH_def HEIGHT_def)
  with res show ?thesis by (simp add: WIDTH_def HEIGHT_def)
qed

theorem enforce_edges_clamps_witness:
  "length (replicate NUM_PARTICLES \<lparr>pos_x = 1000, pos_y = - 3, vel_x = 1, vel_y = 2\<rparr>)
     = NUM_PARTICLES \<and>
   (\<exists>ps'. enforce_edges (replicate NUM_PARTICLES \<lparr>pos_x = 1000, pos_y = - 3, vel_x = 1, vel_y = 2\<rparr>)
            = Inr ps' \<and> length ps' = NUM_PARTICLES \<and>
          (\<forall>i<NUM_PARTICLES. pos_x (ps' ! i) = 721 \<and> pos_y (ps' ! i) = 0 \<and>
             vel_x (ps' ! i) = 1 \<and> vel_y (ps' ! i) = 2))"
  using enforce_edges_clamps
    [of "replicate NUM_PARTICLES \<lparr>pos_x = 1000, pos_y = - 3, vel_x = 1, vel_y = 2\<rparr>"]
  by (auto simp: WIDTH_def HEIGHT_def)

text \<open>
  C6. \<open>enforce_edges\<close> is idempotent: on a particle set it returns an array on which a
  second application returns that same array.
\<close>

theorem enforce_edges_idempotent:
  assumes "length ps = NUM_PARTICLES"
  shows "\<exists>ps'. enforce_edges ps = Inr ps' \<and> enforce_edges ps' = Inr ps'"
proof -
  have first: "enforce_edges ps = Inr (map clamp_row ps)"
    using assms by (rule enforce_edges_exact)
  have "enforce_edges (map clamp_row ps) = Inr (map clamp_row (map clamp_row ps))"
    using assms by (intro enforce_edges_exact) simp
  then have "enforce_edges (map clamp_row ps) = Inr (map clamp_row ps)"
    by (simp add: clamp_row_idem)
  with first show ?thesis by simp
qed

theorem enforce_edges_idempotent_witness:
  "length (replicate NUM_PARTICLES \<lparr>pos_x = 1000, pos_y = - 3, vel_x = 1, vel_y = 2\<rparr>)
     = NUM_PARTICLES \<and>
   (\<exists>ps'. enforce_edges (replicate NUM_PARTICLES \<lparr>pos_x = 1000, pos_y = - 3, vel_x = 1, vel_y = 2\<rparr>)
            = Inr ps' \<and> enforce_edges ps' = Inr ps')"
  using enforce_edges_idempotent
    [of "replicate NUM_PARTICLES \<lparr>pos_x = 1000, pos_y = - 3, vel_x = 1, vel_y = 2\<rparr>"]
  by simp

subsection \<open>Scoring\<close>

lemma py_int_bounds:
  assumes "0 \<le> r" and "r \<le> real_of_int k"
  shows "0 \<le> py_int r" and "py_int r \<le> k"
  using assms by (simp_all add: py_int_def floor_le_iff le_floor_iff)

lemma np_index_in_range:
  "0 \<le> i \<Longrightarrow> i < int n \<Longrightarrow> np_index n i = Inr (nat i)"
  by (simp add: np_index_def)

lemma in_frame_indices:
  assumes "in_frame p"
  shows "0 \<le> py_int (pos_x p)" "py_int (pos_x p) < WIDTH"
    "0 \<le> py_int (pos_y p)" "py_int (pos_y p) < HEIGHT"
proof -
  have x: "0 \<le> pos_x p" "pos_x p \<le> real_of_int (WIDTH - 1)"
    and y: "0 \<le> pos_y p" "pos_y p \<le> real_of_int (HEIGHT - 1)"
    using assms by (simp_all add: in_frame_def)
  show "0 \<le> py_int (pos_x p)" using py_int_bounds(1) [OF x] .
  show "0 \<le> py_int (pos_y p)" using py_int_bounds(1) [OF y] .
  show "py_int (pos_x p) < WIDTH" using py_int_bounds(2) [OF x] by simp
  show "py_int (pos_y p) < HEIGHT" using py_int_bounds(2) [OF y] by simp
qed

lemma compute_errors_body_in_frame:
  assumes "i < length ps" and "in_frame (ps ! i)"
    and "shape_rows fr = nat HEIGHT" and "shape_cols fr = nat WIDTH"
  shows "compute_errors_body ps fr i errors = Inr (errors[i := particle_error fr (ps ! i)])"
proof -
  note idx = in_frame_indices [OF assms(2)]
  have r: "np_index (shape_rows fr) (py_int (pos_y (ps ! i))) = Inr (nat (py_int (pos_y (ps ! i))))"
    using idx assms(3) by (intro np_index_in_range) simp_all
  have c: "np_index (shape_cols fr) (py_int (pos_x (ps ! i))) = Inr (nat (py_int (pos_x (ps ! i))))"
    using idx assms(4) by (intro np_index_in_range) simp_all
  show ?thesis
    using assms(1) by (simp add: compute_errors_body_def Let_def r c particle_error_def)
qed

lemma compute_errors_prefix:
  assumes "\<forall>p\<in>set ps. in_frame p"
    and "shape_rows fr = nat HEIGHT" and "shape_cols fr = nat WIDTH"
    and "length errors = length ps"
  shows "n \<le> length ps \<Longrightarrow>
           for_range [0..<n] (compute_errors_body ps fr) errors =
             Inr (map (particle_error fr) (take n ps) @ drop n errors)"
proof (induction n)
  case 0
  then show ?case by simp
next
  case (Suc n)
  then have n: "n < length ps" by simp
  let ?mid = "map (particle_error fr) (take n ps) @ drop n errors"
  have inf: "in_frame (ps ! n)" using assms(1) n by simp
  have "for_range [0..<Suc n] (compute_errors_body ps fr) errors =
          compute_errors_body ps fr n ?mid"
    using Suc.IH n by (simp add: for_range_append split: sum.splits)
  also have "\<dots> = Inr (?mid[n := particle_error fr (ps ! n)])"
    using compute_errors_body_in_frame [OF n inf assms(2,3)] .
  also have "?mid[n := particle_error fr (ps ! n)] =
               map (particle_error fr) (take (Suc n) ps) @ drop (Suc n) errors"
    using n assms(4)
    by (simp add: list_update_append take_Suc_conv_app_nth upd_conv_take_nth_drop
        Cons_nth_drop_Suc [symmetric])
  finally show ?case .
qed

lemma compute_errors_result:
  assumes "length ps = NUM_PARTICLES"
    and "\<forall>p\<in>set ps. in_frame p"
    and "shape_rows fr = nat HEIGHT" and "shape_cols fr = nat WIDTH"
  shows "compute_errors ps fr = Inr (map (particle_error fr) ps)"
proof -
  have "for_range [0..<NUM_PARTICLES] (compute_errors_body ps fr) (replicate NUM_PARTICLES 0) =
          Inr (map (particle_error fr) (take NUM_PARTICLES ps) @
               drop NUM_PARTICLES (replicate NUM_PARTICLES 0))"
    using assms by (intro compute_errors_prefix) simp_all
  then show ?thesis
    using assms(1) by (simp add: compute_errors_def)
qed

text \<open>
  C4. For a particle set whose positions all lie in
  \<open>[0, WIDTH-1] \<times> [0, HEIGHT-1]\<close> and a frame of \<open>HEIGHT\<close> rows and
  \<open>WIDTH\<close> columns, the truncated coordinates satisfy \<open>0 \<le> int(x) < WIDTH\<close>
  and \<open>0 \<le> int(y) < HEIGHT\<close>, both frame indices are accepted as they are, and
  \<open>compute_errors\<close> returns the error of every particle without raising
  \<open>IndexError\<close>.
\<close>

theorem compute_errors_in_bounds:
  assumes "length ps = NUM_PARTICLES"
    and "\<forall>p\<in>set ps. in_frame p"
    and "shape_rows fr = nat HEIGHT" and "shape_cols fr = nat WIDTH"
  shows "(\<forall>p\<in>set ps.
            0 \<le> py_int (pos_x p) \<and> py_int (pos_x p) < WIDTH \<and>
            0 \<le> py_int (pos_y p) \<and> py_int (pos_y p) < HEIGHT \<and>
            np_index (shape_cols fr) (py_int (pos_x p)) = Inr (nat (py_int (pos_x p))) \<and>
            np_index (shape_rows fr) (py_int (pos_y p)) = Inr (nat (py_int (pos_y p)))) \<and>
         compute_errors ps fr = Inr (map (particle_error fr) ps)"
proof -
  have run: "compute_errors ps fr = Inr (map (particle_error fr) ps)"
    using assms by (rule compute_errors_result)
  have "0 \<le> py_int (pos_x p) \<and> py_int (pos_x p) < WIDTH \<and>
        0 \<le> py_int (pos_y p) \<and> py_int (pos_y p) < HEIGHT \<and>
        np_index (shape_cols fr) (py_int (pos_x p)) = Inr (nat (py_int (pos_x p))) \<and>
        np_index (shape_rows fr) (py_int (pos_y p)) = Inr (nat (py_int (pos_y p)))"
    if "p \<in> set ps" for p
  proof -
    have "in_frame p" using assms(2) that by simp
    note idx = in_frame_indices [OF this]
    have "np_index (shape_cols fr) (py_int (pos_x p)) = Inr (nat (py_int (pos_x p)))"
      using idx assms(4) by (intro np_index_in_range) simp_all
    moreover have "np_index (shape_rows fr) (py_int (pos_y p)) = Inr (nat (py_int (pos_y p)))"
      using idx assms(3) by (intro np_index_in_range) simp_all
    ultimately show ?thesis using idx by simp
  qed
  with run show ?thesis by blast
qed

theorem compute_errors_in_bounds_witness:
  "length (replicate NUM_PARTICLES \<lparr>pos_x = 721, pos_y = 3 / 2, vel_x = 0, vel_y = 0\<rparr>)
     = NUM_PARTICLES \<and>
   list_all in_frame
     (replicate NUM_PARTICLES \<lparr>pos_x = 721, pos_y = 3 / 2, vel_x = 0, vel_y = 0\<rparr>) \<and>
   shape_rows (uniform_frame (189, 105, 80)) = nat HEIGHT \<and>
   shape_cols (uniform_frame (189, 105, 80)) = nat WIDTH \<and>
   compute_errors (replicate NUM_PARTICLES \<lparr>pos_x = 721, pos_y = 3 / 2, vel_x = 0, vel_y = 0\<rparr>)
     (uniform_frame (189, 105, 80)) = Inr (replicate NUM_PARTICLES 4)"
proof -
  let ?ps = "replicate NUM_PARTICLES \<lparr>pos_x = 721, pos_y = 3 / 2, vel_x = 0, vel_y = 0\<rparr>"
  let ?fr = "uniform_frame (189, 105, 80)"
  have h1: "length ?ps = NUM_PARTICLES" by simp
  have h2: "\<forall>p\<in>set ?ps. in_frame p" by (simp add: in_frame_def WIDTH_def HEIGHT_def)
  have h3: "shape_rows ?fr = nat HEIGHT" by (simp add: uniform_frame_def)
  have h4: "shape_cols ?fr = nat WIDTH" by (simp add: uniform_frame_def)
  have "particle_error ?fr \<lparr>pos_x = 721, pos_y = 3 / 2, vel_x = 0, vel_y = 0\<rparr> = 4"
    by (simp add: particle_error_def uniform_frame_def squared_colour_distance_def)
  moreover have "list_all in_frame ?ps" using h2 by (simp add: list_all_iff)
  ultimately show ?thesis
    using compute_errors_in_bounds [OF h1 h2 h3 h4] h1 h3 h4 by simp
qed

text \<open>
  Without boundary enforcement the read can fail: a first particle at or beyond the right
  edge makes \<open>compute_errors\<close> raise \<open>IndexError\<close>.
\<close>

lemma compute_errors_off_frame:
  assumes "shape_cols fr = nat WIDTH" and "shape_rows fr = nat HEIGHT"
    and "real_of_int WIDTH \<le> pos_x p" and "0 \<le> pos_y p" and "pos_y p < real_of_int HEIGHT"
  shows "compute_errors (p # rest) fr = Inl IndexError"
proof -
  have x: "\<not> py_int (pos_x p) < WIDTH" "\<not> py_int (pos_x p) < 0"
    using assms(3) by (simp_all add: py_int_def WIDTH_def le_floor_iff)
  have y: "0 \<le> py_int (pos_y p)" "py_int (pos_y p) < HEIGHT"
    using assms(4,5) by (simp_all add: py_int_def floor_less_iff)
  have "compute_errors_body (p # rest) fr 0 errors = Inl IndexError" for errors
    using x y assms(1,2) by (simp add: compute_errors_body_def np_index_def Let_def)
  moreover have "[0..<NUM_PARTICLES] = 0 # [Suc 0..<NUM_PARTICLES]"
    using NUM_PARTICLES_pos by (rule upt_conv_Cons)
  ultimately show ?thesis by (simp add: compute_errors_def)
qed

subsection \<open>Weights\<close>

lemma np_max_Max:
  assumes "a \<noteq> []"
  shows "np_max a = Inr (Max (set a))"
proof (cases a)
  case Nil
  with assms show ?thesis by simp
next
  case (Cons v rest)
  have "fold max rest v = Max (set (v # rest))"
    by (rule Max.set_eq_fold [symmetric])
  with Cons show ?thesis by (simp add: np_max_def)
qed

lemma compute_weights_result:
  assumes "length errors = length ps" "errors \<noteq> []"
  shows "compute_weights ps errors =
           Inr (map (\<lambda>i. (if edge_mask ps ! i then 0 else Max (set errors) - errors ! i) ^ 4)
                  [0..<length errors])"
proof -
  have "np_mask_assign (map (\<lambda>e. Max (set errors) - e) errors) (edge_mask ps) 0 =
          Inr (map (\<lambda>i. if edge_mask ps ! i then 0 else Max (set errors) - errors ! i)
                 [0..<length errors])"
  proof -
    have "map (\<lambda>(w, m). if m then 0 else w)
            (zip (map (\<lambda>e. Max (set errors) - e) errors) (edge_mask ps)) =
          map (\<lambda>i. if edge_mask ps ! i then 0 else Max (set errors) - errors ! i)
            [0..<length errors]"
      using assms(1) by (intro nth_equalityI) (simp_all add: edge_mask_def)
    then show ?thesis
      using assms(1) by (simp add: np_mask_assign_def edge_mask_def)
  qed
  then show ?thesis
    using assms(2) by (simp add: compute_weights_def np_max_Max comp_def)
qed

lemma edge_mask_nth:
  "i < length ps \<Longrightarrow>
     edge_mask ps ! i \<longleftrightarrow>
       (pos_x (ps ! i) = 0 \<or> pos_x (ps ! i) = real_of_int (WIDTH - 1) \<or>
        pos_y (ps ! i) = 0 \<or> pos_y (ps ! i) = real_of_int (HEIGHT - 1))"
  by (simp add: edge_mask_def)

text \<open>
  C5. For an error vector and the particle set it was computed from (arrays of the same,
  non-zero length), \<open>compute_weights\<close> returns one weight per particle; every weight
  is non-negative, and the weight of a particle with \<open>x = 0\<close>, \<open>x = WIDTH-1\<close>,
  \<open>y = 0\<close> or \<open>y = HEIGHT-1\<close> is exactly 0.
\<close>

theorem compute_weights_nonneg_edge_zero:
  assumes "length errors = length ps" and "errors \<noteq> []"
  shows "\<exists>weights. compute_weights ps errors = Inr weights \<and>
           length weights = length ps \<and>
           (\<forall>i<length ps.
              0 \<le> weights ! i \<and>
              (pos_x (ps ! i) = 0 \<or> pos_x (ps ! i) = real_of_int (WIDTH - 1) \<or>
               pos_y (ps ! i) = 0 \<or> pos_y (ps ! i) = real_of_int (HEIGHT - 1)
                 \<longrightarrow> weights ! i = 0))"
proof -
  let ?ws = "map (\<lambda>i. (if edge_mask ps ! i then 0 else Max (set errors) - errors ! i) ^ 4)
               [0..<length errors]"
  have res: "compute_weights ps errors = Inr ?ws"
    using assms by (rule compute_weights_result)
  have len: "length ?ws = length ps" using assms(1) by simp
  have "0 \<le> ?ws ! i \<and>
        (pos_x (ps ! i) = 0 \<or> pos_x (ps ! i) = real_of_int (WIDTH - 1) \<or>
         pos_y (ps ! i) = 0 \<or> pos_y (ps ! i) = real_of_int (HEIGHT - 1) \<longrightarrow> ?ws ! i = 0)"
    if "i < length ps" for i
  proof -
    have nth: "?ws ! i = (if edge_mask ps ! i then 0 else Max (set errors) - errors ! i) ^ 4"
      using that assms(1) by simp
    show ?thesis
      unfolding nth using edge_mask_nth [OF that] by simp
  qed
  with res len show ?thesis by blast
qed

theorem compute_weights_nonneg_edge_zero_witness:
  "length (3 # replicate 4999 (5::real)) =
     length (\<lparr>pos_x = 0, pos_y = 7, vel_x = 0, vel_y = 0\<rparr> #
             replicate 4999 \<lparr>pos_x = 10, pos_y = 20, vel_x = 0, vel_y = 0\<rparr>) \<and>
   3 # replicate 4999 (5::real) \<noteq> [] \<and>
   (\<exists>weights.
      compute_weights
        (\<lparr>pos_x = 0, pos_y = 7, vel_x = 0, vel_y = 0\<rparr> #
         replicate 4999 \<lparr>pos_x = 10, pos_y = 20, vel_x = 0, vel_y = 0\<rparr>)
        (3 # replicate 4999 5) = Inr weights \<and>
      length weights = NUM_PARTICLES \<and> weights ! 0 = 0 \<and> 0 \<le> weights ! 1)"
proof -
  let ?ps = "\<lparr>pos_x = 0, pos_y = 7, vel_x = 0, vel_y = 0\<rparr> #
             replicate 4999 \<lparr>pos_x = 10, pos_y = 20, vel_x = 0, vel_y = 0\<rparr>"
  let ?errors = "3 # replicate 4999 (5::real)"
  have h1: "length ?errors = length ?ps" by simp
  have h2: "?errors \<noteq> []" by simp
  obtain weights where w: "compute_weights ?ps ?errors = Inr weights"
      "length weights = length ?ps"
      "\<forall>i<length ?ps.
         0 \<le> weights ! i \<and>
         (pos_x (?ps ! i) = 0 \<or> pos_x (?ps ! i) = real_of_int (WIDTH - 1) \<or>
          pos_y (?ps ! i) = 0 \<or> pos_y (?ps ! i) = real_of_int (HEIGHT - 1)
            \<longrightarrow> weights ! i = 0)"
    using compute_weights_nonneg_edge_zero [OF h1 h2] by blast
  have "weights ! 0 = 0" using w(3) by simp
  moreover have "0 \<le> weights ! 1" using w(3) by simp
  moreover have "length weights = NUM_PARTICLES" using w(2) by (simp add: NUM_PARTICLES_def)
  ultimately show ?thesis using w(1) h1 h2 by blast
qed

text \<open>
  C9. For an error vector whose entries are all equal, \<open>compute_weights\<close> returns the
  all-zero weight vector, whose sum is 0: \<open>np.max(errors) - errors\<close> is 0 at every
  particle before the fourth power is taken.
\<close>

theorem compute_weights_flat_errors:
  assumes "length errors = length ps" and "errors \<noteq> []"
    and "\<forall>a\<in>set errors. \<forall>b\<in>set errors. a = b"
  shows "\<exists>weights. compute_weights ps errors = Inr weights \<and>
           weights = replicate (length errors) 0 \<and> sum_list weights = 0"
proof -
  have "Max (set errors) \<in> set errors"
    using assms(2) by (intro Max_in) simp_all
  then have flat: "Max (set errors) - errors ! i = 0" if "i < length errors" for i
    using assms(3) that by (metis nth_mem right_minus_eq)
  have "compute_weights ps errors =
          Inr (map (\<lambda>i. (if edge_mask ps ! i then 0 else Max (set errors) - errors ! i) ^ 4)
                 [0..<length errors])"
    using assms(1,2) by (rule compute_weights_result)
  also have "map (\<lambda>i. (if edge_mask ps ! i then 0 else Max (set errors) - errors ! i) ^ 4)
               [0..<length errors] = replicate (length errors) (0::real)"
    using flat by (intro nth_equalityI) simp_all
  finally show ?thesis by (simp add: sum_list_zeros)
qed

theorem compute_weights_flat_errors_witness:
  "length (replicate NUM_PARTICLES (7::real)) =
     length (replicate NUM_PARTICLES \<lparr>pos_x = 10, pos_y = 20, vel_x = 0, vel_y = 0\<rparr>) \<and>
   replicate NUM_PARTICLES (7::real) \<noteq> [] \<and>
   list_all (\<lambda>a. a = 7) (replicate NUM_PARTICLES (7::real)) \<and>
   compute_weights (replicate NUM_PARTICLES \<lparr>pos_x = 10, pos_y = 20, vel_x = 0, vel_y = 0\<rparr>)
     (replicate NUM_PARTICLES 7) = Inr (replicate NUM_PARTICLES 0)"
proof -
  let ?ps = "replicate NUM_PARTICLES \<lparr>pos_x = 10, pos_y = 20, vel_x = 0, vel_y = 0\<rparr>"
  let ?errors = "replicate NUM_PARTICLES (7::real)"
  have h1: "length ?errors = length ?ps" by simp
  have h2: "?errors \<noteq> []" by (simp add: NUM_PARTICLES_def)
  have h3: "\<forall>a\<in>set ?errors. \<forall>b\<in>set ?errors. a = b" by simp
  have h3': "list_all (\<lambda>a. a = 7) ?errors" by (simp add: list_all_iff)
  show ?thesis
    using compute_weights_flat_errors [OF h1 h2 h3] h1 h2 h3' by simp
qed

text \<open>
  The first stages of the main loop compose: after \<open>apply_velocity\<close> and
  \<open>enforce_edges\<close> every position is inside the frame, \<open>compute_errors\<close> scores
  the array without raising, and \<open>compute_weights\<close>, reading that same array, returns
  one weight per particle.
\<close>

lemma frame_step_scores:
  assumes "length ps = NUM_PARTICLES"
    and "shape_rows fr = nat HEIGHT" and "shape_cols fr = nat WIDTH"
  shows "\<exists>ps' errors weights.
           enforce_edges (apply_velocity ps) = Inr ps' \<and> list_all in_frame ps' \<and>
           compute_errors ps' fr = Inr errors \<and>
           compute_weights ps' errors = Inr weights \<and> length weights = NUM_PARTICLES"
proof -
  let ?ps' = "map clamp_row (apply_velocity ps)"
  let ?errors = "map (particle_error fr) ?ps'"
  have len: "length (apply_velocity ps) = NUM_PARTICLES"
    using assms(1) by (simp add: apply_velocity_def)
  have clamp: "enforce_edges (apply_velocity ps) = Inr ?ps'"
    using len by (rule enforce_edges_exact)
  have inside: "\<forall>p\<in>set ?ps'. in_frame p"
    using clamp_row_bounds by (auto simp: in_frame_def)
  have score: "compute_errors ?ps' fr = Inr ?errors"
    using len inside assms(2,3) by (intro compute_errors_result) simp_all
  have "length ?errors = length ?ps'" by simp
  moreover have "?errors \<noteq> []" using len NUM_PARTICLES_pos by auto
  ultimately have "compute_weights ?ps' ?errors =
      Inr (map (\<lambda>i. (if edge_mask ?ps' ! i then 0 else Max (set ?errors) - ?errors ! i) ^ 4)
             [0..<length ?errors])"
    by (rule compute_weights_result)
  moreover have "length (map (\<lambda>i. (if edge_mask ?ps' ! i then 0
                    else Max (set ?errors) - ?errors ! i) ^ 4) [0..<length ?errors]) = NUM_PARTICLES"
    using len by simp
  moreover have "list_all in_frame ?ps'" using inside by (simp add: list_all_iff)
  ultimately show ?thesis using clamp score by blast
qed

subsection \<open>Initialization\<close>

text \<open>
  C7. When the generator's variates lie in \<open>[0, 1)\<close>, \<open>initialize_particles\<close>
  returns exactly \<open>NUM_PARTICLES\<close> particles, each with \<open>0 \<le> x < WIDTH\<close>,
  \<open>0 \<le> y < HEIGHT\<close>, \<open>|vx| \<le> VEL_RANGE/2\<close> and \<open>|vy| \<le> VEL_RANGE/2\<close>.
\<close>

theorem initialize_particles_bounds:
  assumes "\<forall>k. 0 \<le> rng k \<and> rng k < 1"
  shows "length (initialize_particles rng) = NUM_PARTICLES \<and>
         (\<forall>p\<in>set (initialize_particles rng).
            0 \<le> pos_x p \<and> pos_x p < real_of_int WIDTH \<and>
            0 \<le> pos_y p \<and> pos_y p < real_of_int HEIGHT \<and>
            \<bar>vel_x p\<bar> \<le> VEL_RANGE / 2 \<and> \<bar>vel_y p\<bar> \<le> VEL_RANGE / 2)"
proof -
  have u: "0 \<le> rng k" "rng k < 1" for k using assms by simp_all
  have pos: "0 \<le> rng k * real_of_int d \<and> rng k * real_of_int d < real_of_int d"
    if "0 < d" for k d
    using u [of k] that by (simp add: mult_less_cancel_right1)
  have vel: "\<bar>rng k * VEL_RANGE - VEL_RANGE / 2\<bar> \<le> VEL_RANGE / 2" for k
    using u [of k] unfolding VEL_RANGE_def abs_le_iff by simp
  have w: "0 < WIDTH" and h: "0 < HEIGHT" by (simp_all add: WIDTH_def HEIGHT_def)
  show ?thesis
    using pos [OF w] pos [OF h] vel by (auto simp: initialize_particles_def)
qed

theorem initialize_particles_bounds_witness:
  "(\<forall>k. 0 \<le> constant_rng (1 / 4) k \<and> constant_rng (1 / 4) k < 1) \<and>
   length (initialize_particles (constant_rng (1 / 4))) = NUM_PARTICLES \<and>
   list_all (\<lambda>p. 0 \<le> pos_x p \<and> pos_x p < real_of_int WIDTH \<and>
      0 \<le> pos_y p \<and> pos_y p < real_of_int HEIGHT \<and>
      \<bar>vel_x p\<bar> \<le> VEL_RANGE / 2 \<and> \<bar>vel_y p\<bar> \<le> VEL_RANGE / 2)
     (initialize_particles (constant_rng (1 / 4)))"
proof -
  have h: "\<forall>k. 0 \<le> constant_rng (1 / 4) k \<and> constant_rng (1 / 4) k < 1"
    by (simp add: constant_rng_def)
  show ?thesis
    using initialize_particles_bounds [OF h] h unfolding list_all_iff by blast
qed


subsection \<open>float64 rounding\<close>

text \<open>
  A number in the binade \<open>[2\<^sup>e, 2\<^sup>e\<^sup>+\<^sup>1)\<close> is rounded to a multiple of
  \<open>2\<^sup>e\<^sup>-\<^sup>5\<^sup>2\<close>; a number that is such a multiple is a float64 and rounds to itself.
\<close>

lemma pow2_less_iff: "(2::real) powi m < 2 powi n \<longleftrightarrow> m < n"
proof
  assume lt: "(2::real) powi m < 2 powi n"
  show "m < n"
  proof (rule ccontr)
    assume "\<not> m < n"
    then have "n \<le> m" by simp
    then have "(2::real) powi n \<le> 2 powi m" by (intro power_int_increasing) simp_all
    with lt show False by simp
  qed
next
  assume "m < n"
  then show "(2::real) powi m < 2 powi n" by (intro power_int_strict_increasing) simp_all
qed

lemma binade_search_eq:
  assumes "2 powi e \<le> a" and "a < 2 powi (e + 1)"
  shows "e0 \<le> e \<Longrightarrow> nat (e - e0) \<le> fuel \<Longrightarrow> binade_search fuel e0 a = e"
proof (induction fuel arbitrary: e0)
  case 0
  then show ?case by simp
next
  case (Suc fuel)
  show ?case
  proof (cases "a < 2 powi (e0 + 1)")
    case True
    with assms(1) have "(2::real) powi e < 2 powi (e0 + 1)" by simp
    then have "e < e0 + 1" by (simp only: pow2_less_iff)
    with Suc.prems(1) have "e0 = e" by simp
    with True show ?thesis by simp
  next
    case False
    have "e0 \<noteq> e" using False assms(2) by auto
    with Suc.prems have "e0 + 1 \<le> e" "nat (e - (e0 + 1)) \<le> fuel" by simp_all
    then have "binade_search fuel (e0 + 1) a = e" by (rule Suc.IH)
    with False show ?thesis by simp
  qed
qed

lemma binade_eq:
  assumes "2 powi e \<le> a" and "a < 2 powi (e + 1)" and "- 1022 \<le> e" and "e \<le> 1023"
  shows "binade a = e"
  unfolding binade_def using assms(3,4) by (intro binade_search_eq [OF assms(1,2)]) simp_all

lemma binade_subnormal:
  assumes "a < 2 powi (- 1022)"
  shows "binade a = - 1022"
proof -
  have "(2::real) powi (- 1022) < 2 powi (- 1022 + 1)" by (simp only: pow2_less_iff)
  with assms have "a < 2 powi (- 1022 + 1)" by simp
  then have "binade_search (Suc 2044) (- 1022) a = - 1022" by (simp only: binade_search.simps if_True)
  then show ?thesis by (simp add: binade_def)
qed

lemma round_half_even_of_int [simp]: "round_half_even (real_of_int m) = m"
  by (simp add: round_half_even_def)

lemma round64_in_binade:
  assumes "2 powi e \<le> \<bar>v\<bar>" and "\<bar>v\<bar> < 2 powi (e + 1)" and "- 1022 \<le> e" and "e \<le> 1023"
    and "\<bar>real_of_int (round_half_even (v / 2 powi (e - 52))) * 2 powi (e - 52)\<bar> < 2 powi 1024"
  shows "round64 v = Fin (real_of_int (round_half_even (v / 2 powi (e - 52))) * 2 powi (e - 52))"
proof -
  have "(2::real) powi (e + 1) \<le> 2 powi 1024"
    using assms(4) by (intro power_int_increasing) simp_all
  with assms(2) have small: "\<not> 2 powi 1024 \<le> \<bar>v\<bar>" by simp
  have b: "binade \<bar>v\<bar> = e" using assms(1-4) by (rule binade_eq)
  show ?thesis
    using small assms(5) unfolding round64_def b Let_def by (simp only: if_False not_le [symmetric])
qed

lemma round64_exact:
  assumes "2 powi e \<le> \<bar>v\<bar>" and "\<bar>v\<bar> < 2 powi (e + 1)" and "- 1022 \<le> e" and "e \<le> 1023"
    and "v = real_of_int m * 2 powi (e - 52)"
  shows "round64 v = Fin v"
proof -
  have q: "v / 2 powi (e - 52) = real_of_int m" using assms(5) by simp
  have "(2::real) powi (e + 1) \<le> 2 powi 1024"
    using assms(4) by (intro power_int_increasing) simp_all
  with assms(2) have "\<bar>v\<bar> < 2 powi 1024" by simp
  then have "\<bar>real_of_int (round_half_even (v / 2 powi (e - 52))) * 2 powi (e - 52)\<bar> < 2 powi 1024"
    unfolding q round_half_even_of_int assms(5) [symmetric] .
  from round64_in_binade [OF assms(1-4) this] show ?thesis
    unfolding q round_half_even_of_int assms(5) [symmetric] .
qed

lemma round64_zero [simp]: "round64 0 = Fin 0"
proof -
  have "binade \<bar>0\<bar> = - 1022" by (intro binade_subnormal) simp
  then show ?thesis by (simp add: round64_def Let_def round_half_even_def)
qed

lemma round64_nat:
  assumes "k < 2 ^ 53"
  shows "round64 (real k) = Fin (real k)"
proof (cases "k = 0")
  case True
  then show ?thesis by simp
next
  case False
  then obtain n where n: "2 ^ n \<le> k" "k < 2 ^ (n + 1)"
    using ex_power_ivl1 [of 2 k] by auto
  have "n < 53"
  proof (rule ccontr)
    assume "\<not> n < 53"
    then have "(2::nat) ^ 53 \<le> 2 ^ n" by (intro power_increasing) simp_all
    with n(1) assms show False by simp
  qed
  have lo: "2 powi int n \<le> \<bar>real k\<bar>"
    using n(1) by (simp add: of_nat_le_iff [of "2 ^ n" k, unfolded of_nat_power of_nat_numeral])
  have hi: "\<bar>real k\<bar> < 2 powi (int n + 1)"
  proof -
    have "real k < real (2 ^ (n + 1))" using n(2) by (simp only: of_nat_less_iff)
    also have "real (2 ^ (n + 1)) = 2 powi (int n + 1)"
      by (simp add: power_int_add)
    finally show ?thesis by simp
  qed
  have rep: "real k = real_of_int (int k * 2 ^ (52 - n)) * 2 powi (int n - 52)"
  proof -
    have "(2::real) powi (int n - 52) = 1 / 2 ^ (52 - n)"
      using \<open>n < 53\<close> by (simp add: power_int_def nat_diff_distrib' inverse_eq_divide power_one_over)
    then show ?thesis by simp
  qed
  show ?thesis
    using \<open>n < 53\<close> by (intro round64_exact [OF lo hi _ _ rep]) simp_all
qed

lemma round64_half [simp]: "round64 (1 / 2) = Fin (1 / 2)"
  by (rule round64_exact [where e = "- 1" and m = "2 ^ 52"]) simp_all

lemma round64_below_100: "round64 (100 - 1 / 2 ^ 46) = Fin (100 - 1 / 2 ^ 46)"
  by (rule round64_exact [where e = 6 and m = "100 * 2 ^ 46 - 1"]) simp_all

lemma round64_tie_200: "round64 (200 - 1 / 2 ^ 46) = Fin 200"
proof -
  have "round_half_even ((200 - 1 / 2 ^ 46) / 2 powi (7 - 52)) = 200 * 2 ^ 45"
    by (simp add: round_half_even_def Let_def)
  then show ?thesis
    using round64_in_binade [where e = 7 and v = "200 - 1 / 2 ^ 46"] by simp
qed

subsection \<open>Sums of natural numbers\<close>

text \<open>
  While the total stays below \<open>2\<^sup>5\<^sup>3\<close> every float64 addition of natural numbers is
  exact, so the pairwise sum of such an array is its sum.
\<close>

lemma f64_add_nat:
  "a + b < 2 ^ 53 \<Longrightarrow> f64_add (Fin (real a)) (Fin (real b)) = Fin (real (a + b))"
  using round64_nat [of "a + b"] by simp

lemma fold_add_nat:
  "s + sum_list ks < 2 ^ 53 \<Longrightarrow>
     fold (\<lambda>v res. f64_add res v) (nat_floats ks) (Fin (real s)) = Fin (real (s + sum_list ks))"
proof (induction ks arbitrary: s)
  case Nil
  then show ?case by simp
next
  case (Cons k ks)
  have "s + k < 2 ^ 53" using Cons.prems by simp
  then have "f64_add (Fin (real s)) (Fin (real k)) = Fin (real (s + k))" by (rule f64_add_nat)
  moreover have "fold (\<lambda>v res. f64_add res v) (nat_floats ks) (Fin (real (s + k))) =
                   Fin (real (s + k + sum_list ks))"
    using Cons.prems by (intro Cons.IH) simp
  ultimately show ?case by (simp add: add.assoc)
qed

lemma sum_list_map2_add:
  "length xs = length ys \<Longrightarrow> sum_list (map2 (+) xs ys) = sum_list xs + sum_list (ys :: nat list)"
  by (induction xs ys rule: list_induct2) simp_all

lemma map2_add_nat:
  "length rs = length cs \<Longrightarrow> sum_list rs + sum_list cs < 2 ^ 53 \<Longrightarrow>
     map2 f64_add (nat_floats rs) (nat_floats cs) = nat_floats (map2 (+) rs cs)"
proof (induction rs cs rule: list_induct2)
  case Nil
  then show ?case by simp
next
  case (Cons r rs c cs)
  have "r + c < 2 ^ 53" using Cons.prems by simp
  then have "f64_add (Fin (real r)) (Fin (real c)) = Fin (real (r + c))" by (rule f64_add_nat)
  moreover have "map2 f64_add (nat_floats rs) (nat_floats cs) = nat_floats (map2 (+) rs cs)"
    using Cons.prems by (intro Cons.IH) simp
  ultimately show ?case by simp
qed

lemma accumulate8_nat:
  assumes "length rs = 8" and "sum_list rs + sum_list ks < 2 ^ 53"
  shows "\<exists>rs' ks'. accumulate8 (nat_floats rs) (nat_floats ks) = (nat_floats rs', nat_floats ks') \<and>
           length rs' = 8 \<and> length ks' < 8 \<and>
           sum_list rs' + sum_list ks' = sum_list rs + sum_list ks"
  using assms
proof (induction "length ks" arbitrary: rs ks rule: less_induct)
  case less
  show ?case
  proof (cases "8 \<le> length ks")
    case False
    then have "accumulate8 (nat_floats rs) (nat_floats ks) = (nat_floats rs, nat_floats ks)"
      by (subst accumulate8.simps) simp
    with False less.prems(1) show ?thesis by (intro exI [of _ rs] exI [of _ ks]) simp
  next
    case True
    let ?c = "take 8 ks" and ?d = "drop 8 ks"
    have split: "sum_list ?c + sum_list ?d = sum_list ks"
      by (metis append_take_drop_id sum_list_append)
    have len: "length rs = length ?c" using True less.prems(1) by simp
    have step: "map2 f64_add (nat_floats rs) (nat_floats ?c) = nat_floats (map2 (+) rs ?c)"
      using less.prems(2) split by (intro map2_add_nat [OF len]) simp
    have sum: "sum_list (map2 (+) rs ?c) = sum_list rs + sum_list ?c"
      using len by (rule sum_list_map2_add)
    have unfold: "accumulate8 (nat_floats rs) (nat_floats ks) =
                    accumulate8 (nat_floats (map2 (+) rs ?c)) (nat_floats ?d)"
      using True by (subst accumulate8.simps) (simp add: step take_map drop_map)
    have "\<exists>rs' ks'. accumulate8 (nat_floats (map2 (+) rs ?c)) (nat_floats ?d) =
                      (nat_floats rs', nat_floats ks') \<and>
            length rs' = 8 \<and> length ks' < 8 \<and>
            sum_list rs' + sum_list ks' = sum_list (map2 (+) rs ?c) + sum_list ?d"
      using True less.prems len sum split by (intro less.hyps) simp_all
    then obtain rs' ks' where
      r: "accumulate8 (nat_floats (map2 (+) rs ?c)) (nat_floats ?d) =
            (nat_floats rs', nat_floats ks')"
        "length rs' = 8" "length ks' < 8"
        "sum_list rs' + sum_list ks' = sum_list (map2 (+) rs ?c) + sum_list ?d"
      by blast
    have "accumulate8 (nat_floats rs) (nat_floats ks) = (nat_floats rs', nat_floats ks')"
      using unfold r(1) by (rule trans)
    moreover have "sum_list rs' + sum_list ks' = sum_list rs + sum_list ks"
      using r(4) sum split by simp
    ultimately show ?thesis using r(2,3) by blast
  qed
qed

lemma length8_cases:
  assumes "length (rs :: 'a list) = 8"
  obtains a b c d e f g h where "rs = [a, b, c, d, e, f, g, h]"
  using assms by (auto simp: length_Suc_conv eval_nat_numeral)

lemma tree8_nat:
  assumes "length rs = 8" and "sum_list rs < 2 ^ 53"
  shows "f64_add
           (f64_add (f64_add (nat_floats rs ! 0) (nat_floats rs ! 1))
                    (f64_add (nat_floats rs ! 2) (nat_floats rs ! 3)))
           (f64_add (f64_add (nat_floats rs ! 4) (nat_floats rs ! 5))
                    (f64_add (nat_floats rs ! 6) (nat_floats rs ! 7))) = Fin (real (sum_list rs))"
proof -
  obtain a b c d e f g h where rs: "rs = [a, b, c, d, e, f, g, h]"
    using assms(1) by (rule length8_cases)
  have bound: "a + b + c + d + e + f + g + h < 2 ^ 53" using assms(2) by (simp add: rs)
  have ab: "f64_add (Fin (real a)) (Fin (real b)) = Fin (real (a + b))"
    using bound by (intro f64_add_nat) simp
  have cd: "f64_add (Fin (real c)) (Fin (real d)) = Fin (real (c + d))"
    using bound by (intro f64_add_nat) simp
  have ef: "f64_add (Fin (real e)) (Fin (real f)) = Fin (real (e + f))"
    using bound by (intro f64_add_nat) simp
  have gh: "f64_add (Fin (real g)) (Fin (real h)) = Fin (real (g + h))"
    using bound by (intro f64_add_nat) simp
  have abcd: "f64_add (Fin (real (a + b))) (Fin (real (c + d))) = Fin (real (a + b + (c + d)))"
    using bound by (intro f64_add_nat) simp
  have efgh: "f64_add (Fin (real (e + f))) (Fin (real (g + h))) = Fin (real (e + f + (g + h)))"
    using bound by (intro f64_add_nat) simp
  have all: "f64_add (Fin (real (a + b + (c + d)))) (Fin (real (e + f + (g + h)))) =
               Fin (real (a + b + (c + d) + (e + f + (g + h))))"
    using bound by (intro f64_add_nat) simp
  show ?thesis
    unfolding rs by (simp add: ab cd ef gh abcd efgh all del: f64_add.simps of_nat_add)
qed

lemma pairwise_leaf_nat:
  assumes "8 \<le> length a" and "length a \<le> 128"
    and "accumulate8 (take 8 a) (drop 8 a) = (nat_floats rs, nat_floats ks)"
    and "length rs = 8" and "sum_list rs + sum_list ks < 2 ^ 53"
  shows "pairwise_sum a = Fin (real (sum_list rs + sum_list ks))"
proof -
  have tree: "f64_add
           (f64_add (f64_add (nat_floats rs ! 0) (nat_floats rs ! 1))
                    (f64_add (nat_floats rs ! 2) (nat_floats rs ! 3)))
           (f64_add (f64_add (nat_floats rs ! 4) (nat_floats rs ! 5))
                    (f64_add (nat_floats rs ! 6) (nat_floats rs ! 7))) = Fin (real (sum_list rs))"
    using assms(4,5) by (intro tree8_nat) simp_all
  have "pairwise_sum a =
          fold (\<lambda>v res. f64_add res v) (nat_floats ks) (Fin (real (sum_list rs)))"
    using assms(1,2) tree by (subst pairwise_sum.simps) (simp add: assms(3))
  also have "\<dots> = Fin (real (sum_list rs + sum_list ks))"
    using assms(5) by (rule fold_add_nat)
  finally show ?thesis .
qed

lemma pw_split_bounds:
  assumes "128 < n"
  shows "57 \<le> pw_split n" and "pw_split n < n"
proof -
  have "(n div 2) mod 8 < 8" by simp
  moreover have "64 \<le> n div 2" using assms by simp
  ultimately show "57 \<le> pw_split n" unfolding pw_split_def by linarith
  have "n div 2 < n" using assms by simp
  then show "pw_split n < n" unfolding pw_split_def by linarith
qed

lemma pairwise_sum_nat:
  "sum_list ks < 2 ^ 53 \<Longrightarrow> pairwise_sum (nat_floats ks) = Fin (real (sum_list ks))"
proof (induction "length ks" arbitrary: ks rule: less_induct)
  case less
  consider "length ks < 8" | "8 \<le> length ks" "length ks \<le> 128" | "128 < length ks"
    by linarith
  then show ?case
  proof cases
    case 1
    have "pairwise_sum (nat_floats ks) =
            fold (\<lambda>v res. f64_add res v) (nat_floats ks) (Fin (real 0))"
      using 1 by (subst pairwise_sum.simps) simp
    also have "\<dots> = Fin (real (0 + sum_list ks))"
      using less.prems by (intro fold_add_nat) simp
    finally show ?thesis by simp
  next
    case 2
    have split: "sum_list (take 8 ks) + sum_list (drop 8 ks) = sum_list ks"
      by (metis append_take_drop_id sum_list_append)
    obtain rs' ks' where
      acc: "accumulate8 (nat_floats (take 8 ks)) (nat_floats (drop 8 ks)) =
              (nat_floats rs', nat_floats ks')"
      and len: "length rs' = 8"
      and sum: "sum_list rs' + sum_list ks' = sum_list (take 8 ks) + sum_list (drop 8 ks)"
      using accumulate8_nat [of "take 8 ks" "drop 8 ks"] 2(1) less.prems split by auto
    have "pairwise_sum (nat_floats ks) = Fin (real (sum_list rs' + sum_list ks'))"
      using 2 acc len sum split less.prems
      by (intro pairwise_leaf_nat) (simp_all add: take_map drop_map)
    then show ?thesis using sum split by simp
  next
    case 3
    let ?n2 = "pw_split (length ks)"
    note b = pw_split_bounds [OF 3]
    have split: "sum_list (take ?n2 ks) + sum_list (drop ?n2 ks) = sum_list ks"
      by (metis append_take_drop_id sum_list_append)
    have l: "pairwise_sum (nat_floats (take ?n2 ks)) = Fin (real (sum_list (take ?n2 ks)))"
      using b less.prems split by (intro less.hyps) simp_all
    have r: "pairwise_sum (nat_floats (drop ?n2 ks)) = Fin (real (sum_list (drop ?n2 ks)))"
      using b less.prems split by (intro less.hyps) simp_all
    have "pairwise_sum (nat_floats ks) =
            f64_add (pairwise_sum (nat_floats (take ?n2 ks)))
                    (pairwise_sum (nat_floats (drop ?n2 ks)))"
      using 3 by (subst pairwise_sum.simps) (simp add: take_map drop_map)
    also have "\<dots> = Fin (real (sum_list (take ?n2 ks) + sum_list (drop ?n2 ks)))"
      unfolding l r using less.prems split by (intro f64_add_nat) simp
    finally show ?thesis using split by simp
  qed
qed

lemma np_sum_nat:
  "sum_list ks < 2 ^ 53 \<Longrightarrow> np_sum (map real ks) = Fin (real (sum_list ks))"
  using pairwise_sum_nat [of ks] by (simp add: np_sum_def comp_def)

subsection \<open>A sum that rounds\<close>

text \<open>
  \<open>just_below_100\<close> is a float64, and adding 100 to it gives 200: the exact sum lies half
  way between two float64 numbers and goes to the even one. So the pairwise sum of that
  number followed by \<open>m\<close> times 100 is \<open>100 (m + 1)\<close>.
\<close>

lemma round64_just_below_100: "round64 just_below_100 = Fin just_below_100"
  using round64_below_100 by (simp only: just_below_100_def)

lemma f64_add_below_100: "f64_add (Fin just_below_100) (Fin 100) = Fin 200"
proof -
  have eq: "just_below_100 + 100 = 200 - 1 / 2 ^ 46" by (simp add: just_below_100_def)
  have "f64_add (Fin just_below_100) (Fin 100) = round64 (just_below_100 + 100)" by simp
  also have "\<dots> = Fin 200" unfolding eq by (rule round64_tie_200)
  finally show ?thesis .
qed

lemma accumulate_first_chunk:
  "map2 f64_add (Fin just_below_100 # nat_floats (replicate 7 100))
     (nat_floats (replicate 8 100)) = nat_floats (replicate 8 200)"
proof -
  have h: "f64_add (Fin 100) (Fin 100) = Fin 200"
    using f64_add_nat [of 100 100] by simp
  have r8: "replicate 8 c = c # replicate 7 c" for c :: nat
    by (simp add: eval_nat_numeral)
  show ?thesis
    unfolding r8 by (simp add: zip_replicate h f64_add_below_100 del: f64_add.simps)
qed

lemma pairwise_sum_special:
  assumes "15 \<le> m" and "100 * (m + 1) < 2 ^ 53"
  shows "pairwise_sum (Fin just_below_100 # nat_floats (replicate m 100)) =
           Fin (real (100 * (m + 1)))"
  using assms
proof (induction m rule: less_induct)
  case (less m)
  let ?a = "Fin just_below_100 # nat_floats (replicate m 100)"
  show ?case
  proof (cases "m + 1 \<le> 128")
    case True
    have t8: "take 8 ?a = Fin just_below_100 # nat_floats (replicate 7 100)"
      using less.prems(1) by (simp add: min_def)
    have d8: "drop 8 ?a = nat_floats (replicate (m - 7) 100)"
      by simp
    have t16: "take 8 (nat_floats (replicate (m - 7) 100)) = nat_floats (replicate 8 100)"
      using less.prems(1) by (simp add: min_def)
    have d16: "drop 8 (nat_floats (replicate (m - 7) 100)) = nat_floats (replicate (m - 15) 100)"
      by simp
    have step: "accumulate8 (take 8 ?a) (drop 8 ?a) =
                  accumulate8 (nat_floats (replicate 8 200)) (nat_floats (replicate (m - 15) 100))"
    proof -
      have c: "8 \<le> length (nat_floats (replicate (m - 7) 100))"
        using less.prems(1) by simp
      show ?thesis
        unfolding t8 d8
        by (subst accumulate8.simps) (simp only: c if_True t16 d16 accumulate_first_chunk)
    qed
    have l8: "length (replicate 8 (200::nat)) = 8" by simp
    have bd: "sum_list (replicate 8 200) + sum_list (replicate (m - 15) (100::nat)) < 2 ^ 53"
      using less.prems by (simp add: sum_list_replicate)
    from accumulate8_nat [OF l8 bd] obtain rs' ks' where
      acc: "accumulate8 (nat_floats (replicate 8 200)) (nat_floats (replicate (m - 15) 100)) =
              (nat_floats rs', nat_floats ks')"
      and len: "length rs' = 8"
      and sum: "sum_list rs' + sum_list ks' =
                  sum_list (replicate 8 200) + sum_list (replicate (m - 15) (100::nat))"
      by blast
    have total: "sum_list rs' + sum_list ks' = 100 * (m + 1)"
      using sum less.prems(1) by (simp add: sum_list_replicate)
    have "pairwise_sum ?a = Fin (real (sum_list rs' + sum_list ks'))"
      using True less.prems step acc len total by (intro pairwise_leaf_nat) simp_all
    then show ?thesis using total by simp
  next
    case False
    then have big: "128 < length ?a" by simp
    let ?n2 = "pw_split (length ?a)"
    note b = pw_split_bounds [OF big]
    obtain j where j: "?n2 = Suc j" using b(1) by (cases ?n2) simp_all
    have jm: "15 \<le> j" "j < m" using b j by simp_all
    have l: "take ?n2 ?a = Fin just_below_100 # nat_floats (replicate j 100)"
      unfolding j using jm by (simp add: min_def)
    have r: "drop ?n2 ?a = nat_floats (replicate (m - j) 100)"
      unfolding j by simp
    have "pairwise_sum (take ?n2 ?a) = Fin (real (100 * (j + 1)))"
      unfolding l using jm less.prems(2) by (intro less.IH) simp_all
    moreover have "pairwise_sum (drop ?n2 ?a) = Fin (real (sum_list (replicate (m - j) 100)))"
      unfolding r using less.prems(2) by (intro pairwise_sum_nat) (simp add: sum_list_replicate)
    moreover have "pairwise_sum ?a = f64_add (pairwise_sum (take ?n2 ?a)) (pairwise_sum (drop ?n2 ?a))"
      using big by (subst pairwise_sum.simps) (simp del: f64_add.simps)
    moreover have "f64_add (Fin (real (100 * (j + 1)))) (Fin (real (sum_list (replicate (m - j) 100)))) =
                     Fin (real (100 * (j + 1) + sum_list (replicate (m - j) 100)))"
      using less.prems(2) jm by (intro f64_add_nat) (simp add: sum_list_replicate)
    moreover have "100 * (j + 1) + sum_list (replicate (m - j) 100) = 100 * (m + 1)"
      using jm by (simp add: sum_list_replicate)
    ultimately show ?thesis by simp
  qed
qed

subsection \<open>Resampling\<close>

lemma kahan_loop_NaN: "kahan_loop NaN c rest = NaN"
  by (induction rest arbitrary: c) (simp_all add: Let_def)

lemma np_random_choice_length:
  "np_random_choice a n p rng = Inr indices \<Longrightarrow> length indices = n"
  by (auto simp: np_random_choice_def random_sample_def Let_def split: if_splits)

lemma np_random_choice_NaN:
  assumes "0 < n"
  shows "np_random_choice a k (replicate n NaN) rng = Inl ValueError"
proof -
  obtain j where "n = Suc j" using assms by (cases n) simp_all
  then have "kahan_sum (replicate n NaN) = NaN"
    by (simp add: kahan_sum_def kahan_loop_NaN)
  then show ?thesis by (auto simp: np_random_choice_def Let_def)
qed

lemma np_sum_zeros: "np_sum (replicate n 0) = Fin 0"
  using np_sum_nat [of "replicate n 0"] by (simp add: sum_list_replicate)

lemma probabilities_zeros: "probabilities (replicate n 0) = replicate n NaN"
  by (simp add: probabilities_def np_sum_zeros)

lemma resample_shape:
  assumes "resample ps ws rng = Inr (ps', est)"
  shows "\<exists>indices. length indices = NUM_PARTICLES \<and> (\<forall>i\<in>set indices. i < length ps) \<and>
           ps' = map (nth ps) indices \<and>
           py_int_f64 (np_mean (map pos_x ps')) = Inr (fst est) \<and>
           py_int_f64 (np_mean (map pos_y ps')) = Inr (snd est)"
proof -
  obtain indices where
    c: "np_random_choice NUM_PARTICLES NUM_PARTICLES (probabilities ws) rng = Inr indices"
    using assms by (auto simp: resample_def split: sum.splits)
  then obtain rows where t: "np_take_rows ps indices = Inr rows"
    using assms by (auto simp: resample_def split: sum.splits)
  have rows: "rows = map (nth ps) indices" and inb: "\<forall>i\<in>set indices. i < length ps"
    using t by (auto simp: np_take_rows_def list_all_iff split: if_splits)
  have "ps' = rows \<and> py_int_f64 (np_mean (map pos_x rows)) = Inr (fst est) \<and>
        py_int_f64 (np_mean (map pos_y rows)) = Inr (snd est)"
    using assms c t by (auto simp: resample_def split: sum.splits)
  with rows inb np_random_choice_length [OF c] show ?thesis by blast
qed

text \<open>
  A concrete run: two particles carry all the weight in equal parts, the first draw falls
  in the first half of the distribution and every later draw in the second half.
\<close>

lemma round64_one [simp]: "round64 1 = Fin 1"
  using round64_nat [of 1] by simp

lemma kahan_loop_zeros: "kahan_loop (Fin 1) (Fin 0) (replicate n (Fin 0)) = Fin 1"
  by (induction n) (simp_all add: Let_def f64_sub_def)

lemma kahan_two_hot: "kahan_sum (Fin (1 / 2) # Fin (1 / 2) # replicate n (Fin 0)) = Fin 1"
  by (simp add: kahan_sum_def Let_def f64_sub_def kahan_loop_zeros)

lemma cumsum_from_zeros: "cumsum_from (Fin 1) (replicate n (Fin 0)) = replicate n (Fin 1)"
  by (induction n) simp_all

lemma cumsum_two_hot:
  "np_cumsum (Fin (1 / 2) # Fin (1 / 2) # replicate n (Fin 0)) =
     Fin (1 / 2) # replicate (Suc n) (Fin 1)"
  by (simp add: np_cumsum_def cumsum_from_zeros)

lemma probabilities_two_hot:
  "probabilities (1 # 1 # replicate n 0) = Fin (1 / 2) # Fin (1 / 2) # replicate n (Fin 0)"
proof -
  have "np_sum (map real (1 # 1 # replicate n 0)) = Fin (real (sum_list (1 # 1 # replicate n 0)))"
    by (intro np_sum_nat) (simp add: sum_list_replicate)
  then have "np_sum (1 # 1 # replicate n 0) = Fin 2"
    by (simp add: sum_list_replicate)
  then show ?thesis by (simp add: probabilities_def)
qed

lemma np_random_choice_two_hot:
  "np_random_choice (Suc (Suc n)) k (Fin (1 / 2) # Fin (1 / 2) # replicate n (Fin 0))
     (first_then_rng (1 / 4) (3 / 4)) = Inr (map (\<lambda>j. if j = 0 then 0 else 1) [0..<k])"
proof -
  let ?cdf = "Fin (1 / 2) # replicate (Suc n) (Fin 1)"
  have scaled: "map (\<lambda>c. f64_div c (last ?cdf)) ?cdf = ?cdf"
    by simp
  have lo: "searchsorted_right ?cdf (1 / 4) = 0"
    by (simp add: searchsorted_right_def)
  have hi: "searchsorted_right ?cdf (3 / 4) = 1"
    by (simp add: searchsorted_right_def)
  have draws: "map (searchsorted_right ?cdf) (random_sample (first_then_rng (1 / 4) (3 / 4)) k) =
                 map (\<lambda>j. if j = 0 then 0 else 1) [0..<k]"
    using lo hi by (simp add: random_sample_def first_then_rng_def)
  have checks: "kahan_sum (Fin (1 / 2) # Fin (1 / 2) # replicate n (Fin 0)) = Fin 1"
    by (rule kahan_two_hot)
  show ?thesis
    unfolding np_random_choice_def checks cumsum_two_hot Let_def scaled draws
    by (simp add: f64_sub_def choice_atol_def list_ex_iff)
qed

lemma np_take_rows_in_range:
  "\<forall>i\<in>set indices. i < length rows \<Longrightarrow> np_take_rows rows indices = Inr (map (nth rows) indices)"
  by (simp add: np_take_rows_def list_all_iff)

lemma np_mean_below_100:
  "np_mean (just_below_100 # replicate 4999 100) = Fin 100"
proof -
  have "pairwise_sum (Fin just_below_100 # nat_floats (replicate 4999 100)) =
          Fin (real (100 * (4999 + 1)))"
    by (rule pairwise_sum_special) simp_all
  then have "np_sum (just_below_100 # replicate 4999 100) = Fin 500000"
    by (simp add: np_sum_def)
  moreover have "round64 (real 100) = Fin (real 100)" by (rule round64_nat) simp
  ultimately show ?thesis by (simp add: np_mean_def)
qed

lemma np_mean_fifties: "np_mean (replicate 5000 50) = Fin 50"
proof -
  have "np_sum (map real (replicate 5000 50)) = Fin (real (sum_list (replicate 5000 50)))"
    by (rule np_sum_nat) (simp add: sum_list_replicate)
  then have "np_sum (replicate 5000 50) = Fin 250000"
    by (simp add: sum_list_replicate)
  moreover have "round64 (real 50) = Fin (real 50)" by (rule round64_nat) simp
  ultimately show ?thesis by (simp add: np_mean_def)
qed

lemma two_hot_indices:
  "map (\<lambda>j. if j = 0 then 0 else 1) [0..<NUM_PARTICLES] = 0 # replicate 4999 (1::nat)"
  by (intro nth_equalityI) (simp_all add: NUM_PARTICLES_def nth_Cons')

lemma resample_two_hot_run:
  "resample
     (\<lparr>pos_x = just_below_100, pos_y = 50, vel_x = 0, vel_y = 0\<rparr> #
      \<lparr>pos_x = 100, pos_y = 50, vel_x = 0, vel_y = 0\<rparr> #
      replicate 4998 \<lparr>pos_x = 600, pos_y = 300, vel_x = 0, vel_y = 0\<rparr>)
     (1 # 1 # replicate 4998 0) (first_then_rng (1 / 4) (3 / 4)) =
   Inr (\<lparr>pos_x = just_below_100, pos_y = 50, vel_x = 0, vel_y = 0\<rparr> #
        replicate 4999 \<lparr>pos_x = 100, pos_y = 50, vel_x = 0, vel_y = 0\<rparr>, (100, 50))"
proof -
  let ?p1 = "\<lparr>pos_x = just_below_100, pos_y = 50, vel_x = 0, vel_y = 0\<rparr>"
  let ?p0 = "\<lparr>pos_x = 100, pos_y = 50, vel_x = 0, vel_y = 0\<rparr>"
  let ?ps = "?p1 # ?p0 # replicate 4998 \<lparr>pos_x = 600, pos_y = 300, vel_x = 0, vel_y = 0\<rparr>"
  have n: "NUM_PARTICLES = Suc (Suc 4998)" by (simp add: NUM_PARTICLES_def)
  have choice: "np_random_choice NUM_PARTICLES NUM_PARTICLES
                  (probabilities (1 # 1 # replicate 4998 0)) (first_then_rng (1 / 4) (3 / 4)) =
                Inr (0 # replicate 4999 1)"
    unfolding probabilities_two_hot two_hot_indices [symmetric]
    by (subst (1) n) (rule np_random_choice_two_hot)
  have "\<forall>i\<in>set (0 # replicate 4999 (1::nat)). i < length ?ps" by simp
  then have "np_take_rows ?ps (0 # replicate 4999 1) = Inr (map (nth ?ps) (0 # replicate 4999 1))"
    by (rule np_take_rows_in_range)
  then have rows: "np_take_rows ?ps (0 # replicate 4999 1) = Inr (?p1 # replicate 4999 ?p0)"
    by simp
  have x: "py_int_f64 (np_mean (map pos_x (?p1 # replicate 4999 ?p0))) = Inr 100"
    by (simp add: np_mean_below_100 py_int_def)
  have y: "py_int_f64 (np_mean (map pos_y (?p1 # replicate 4999 ?p0))) = Inr 50"
  proof -
    have "(50::real) # replicate 4999 50 = replicate 5000 50"
      using replicate_Suc [of 4999 "50::real"] by simp
    then show ?thesis by (simp add: np_mean_fifties py_int_def)
  qed
  show ?thesis
    using choice rows x y by (simp add: resample_def)
qed

lemma resample_zeros: "resample ps (replicate NUM_PARTICLES 0) rng = Inl ValueError"
  by (simp add: resample_def probabilities_zeros np_random_choice_NaN [OF NUM_PARTICLES_pos])

text \<open>
  \<open>resample\<close> does not return on every weight vector of positive sum: when the
  float64 sum of the weights overflows, every quotient is 0, and \<open>np.random.choice\<close>
  raises \<open>ValueError\<close> because the probabilities do not sum to 1.
\<close>

lemma round64_huge: "round64 huge_weight = Fin huge_weight"
  unfolding huge_weight_def
  by (rule round64_exact [where e = 1023 and m = "2 ^ 52"]) simp_all

lemma f64_add_zero_huge: "f64_add (Fin 0) (Fin huge_weight) = Fin huge_weight"
  using round64_huge by simp

lemma f64_add_huge: "f64_add (Fin huge_weight) (Fin huge_weight) = PInf"
  by (simp add: round64_def huge_weight_def)

lemma fold_add_PInf:
  "fold (\<lambda>v res. f64_add res v) (replicate k (Fin h)) PInf = PInf"
  by (induction k) simp_all

lemma accumulate8_PInf:
  "\<exists>k'. accumulate8 (replicate 8 PInf) (replicate k (Fin h)) = (replicate 8 PInf, replicate k' (Fin h))"
proof (induction k rule: less_induct)
  case (less k)
  show ?case
  proof (cases "8 \<le> k")
    case False
    then have "accumulate8 (replicate 8 PInf) (replicate k (Fin h)) =
                 (replicate 8 PInf, replicate k (Fin h))"
      by (subst accumulate8.simps) simp
    then show ?thesis by blast
  next
    case True
    have step: "map2 f64_add (replicate 8 PInf) (take 8 (replicate k (Fin h))) = replicate 8 PInf"
      using True by (simp add: min_def zip_replicate)
    have "accumulate8 (replicate 8 PInf) (replicate k (Fin h)) =
            accumulate8 (replicate 8 PInf) (replicate (k - 8) (Fin h))"
      using True by (subst accumulate8.simps) (simp only: step, simp)
    moreover obtain k' where "accumulate8 (replicate 8 PInf) (replicate (k - 8) (Fin h)) =
                                (replicate 8 PInf, replicate k' (Fin h))"
      using less.IH [of "k - 8"] True by auto
    ultimately show ?thesis by simp
  qed
qed

lemma accumulate8_huge:
  "\<exists>v k'. (v = Fin huge_weight \<or> v = PInf) \<and>
     accumulate8 (replicate 8 (Fin huge_weight)) (replicate k (Fin huge_weight)) =
       (replicate 8 v, replicate k' (Fin huge_weight))"
proof (cases "8 \<le> k")
  case False
  then have "accumulate8 (replicate 8 (Fin huge_weight)) (replicate k (Fin huge_weight)) =
               (replicate 8 (Fin huge_weight), replicate k (Fin huge_weight))"
    by (subst accumulate8.simps) simp
  then show ?thesis by blast
next
  case True
  have step: "map2 f64_add (replicate 8 (Fin huge_weight)) (take 8 (replicate k (Fin huge_weight))) =
                replicate 8 PInf"
    using True by (simp add: min_def zip_replicate f64_add_huge del: f64_add.simps)
  have "accumulate8 (replicate 8 (Fin huge_weight)) (replicate k (Fin huge_weight)) =
          accumulate8 (replicate 8 PInf) (replicate (k - 8) (Fin huge_weight))"
    using True by (subst accumulate8.simps) (simp only: step, simp)
  then show ?thesis using accumulate8_PInf [of "k - 8" huge_weight] by auto
qed

lemma pairwise_sum_huge:
  "2 \<le> n \<Longrightarrow> pairwise_sum (replicate n (Fin huge_weight)) = PInf"
proof (induction n rule: less_induct)
  case (less n)
  let ?h = "Fin huge_weight :: float64"
  consider "n < 8" | "8 \<le> n" "n \<le> 128" | "128 < n" by linarith
  then show ?case
  proof cases
    case 1
    obtain k where k: "n = Suc (Suc k)" using less.prems by (metis add_2_eq_Suc le_Suc_ex)
    have "pairwise_sum (replicate n ?h) = fold (\<lambda>v res. f64_add res v) (replicate n ?h) (Fin 0)"
      using 1 by (subst pairwise_sum.simps) simp
    also have "\<dots> = fold (\<lambda>v res. f64_add res v) (replicate k ?h) PInf"
      unfolding k by (simp add: f64_add_zero_huge f64_add_huge del: f64_add.simps)
    finally show ?thesis by (simp only: fold_add_PInf)
  next
    case 2
    obtain v k' where v: "v = ?h \<or> v = PInf"
      and acc: "accumulate8 (replicate 8 ?h) (replicate (n - 8) ?h) = (replicate 8 v, replicate k' ?h)"
      using accumulate8_huge [of "n - 8"] by blast
    have tree: "f64_add (f64_add (f64_add v v) (f64_add v v))
                        (f64_add (f64_add v v) (f64_add v v)) = PInf"
      using v f64_add_huge by auto
    have "pairwise_sum (replicate n ?h) = fold (\<lambda>v res. f64_add res v) (replicate k' ?h) PInf"
      using 2 acc tree by (subst pairwise_sum.simps) (simp add: min_def del: f64_add.simps)
    then show ?thesis by (simp only: fold_add_PInf)
  next
    case 3
    note b = pw_split_bounds [OF 3]
    have "pairwise_sum (replicate (pw_split n) ?h) = PInf"
      using b by (intro less.IH) simp_all
    moreover have "pairwise_sum (replicate (n - pw_split n) ?h) = PInf"
    proof -
      have "pw_split n \<le> n div 2" by (simp add: pw_split_def)
      then show ?thesis using b 3 by (intro less.IH) simp_all
    qed
    moreover have "pairwise_sum (replicate n ?h) =
                     f64_add (pairwise_sum (replicate (pw_split n) ?h))
                             (pairwise_sum (replicate (n - pw_split n) ?h))"
      using 3 b by (subst pairwise_sum.simps) (simp add: min_def del: f64_add.simps)
    ultimately show ?thesis by simp
  qed
qed

lemma kahan_loop_all_zero: "kahan_loop (Fin 0) (Fin 0) (replicate n (Fin 0)) = Fin 0"
  by (induction n) (simp_all add: Let_def f64_sub_def)

lemma round64_minus_one: "round64 (- 1) = Fin (- 1)"
  by (rule round64_exact [where e = 0 and m = "- (2 ^ 52)"]) simp_all

lemma resample_overflow:
  "resample ps (replicate NUM_PARTICLES huge_weight) rng = Inl ValueError"
proof -
  have "np_sum (replicate NUM_PARTICLES huge_weight) = PInf"
    using pairwise_sum_huge [of NUM_PARTICLES] by (simp add: np_sum_def NUM_PARTICLES_def)
  then have p: "probabilities (replicate NUM_PARTICLES huge_weight) = replicate NUM_PARTICLES (Fin 0)"
    by (simp add: probabilities_def)
  obtain j where j: "NUM_PARTICLES = Suc j" using NUM_PARTICLES_pos by (cases NUM_PARTICLES) simp_all
  have "kahan_sum (replicate NUM_PARTICLES (Fin 0)) = Fin 0"
    unfolding j by (simp add: kahan_sum_def kahan_loop_all_zero)
  then have "np_random_choice NUM_PARTICLES NUM_PARTICLES (replicate NUM_PARTICLES (Fin 0)) rng =
               Inl ValueError"
    using NUM_PARTICLES_pos
    by (simp add: np_random_choice_def Let_def f64_sub_def round64_minus_one choice_atol_def)
  then show ?thesis by (simp add: resample_def p)
qed

text \<open>
  C2. Whatever the particle set and the weights, a particle set that \<open>resample\<close> returns
  has exactly \<open>NUM_PARTICLES\<close> rows.
\<close>

theorem resample_cardinality:
  assumes "resample ps ws rng = Inr (ps', est)"
  shows "length ps' = NUM_PARTICLES"
  using resample_shape [OF assms] by auto

theorem resample_cardinality_witness:
  "resample
     (\<lparr>pos_x = just_below_100, pos_y = 50, vel_x = 0, vel_y = 0\<rparr> #
      \<lparr>pos_x = 100, pos_y = 50, vel_x = 0, vel_y = 0\<rparr> #
      replicate 4998 \<lparr>pos_x = 600, pos_y = 300, vel_x = 0, vel_y = 0\<rparr>)
     (1 # 1 # replicate 4998 0) (first_then_rng (1 / 4) (3 / 4)) =
   Inr (\<lparr>pos_x = just_below_100, pos_y = 50, vel_x = 0, vel_y = 0\<rparr> #
        replicate 4999 \<lparr>pos_x = 100, pos_y = 50, vel_x = 0, vel_y = 0\<rparr>, (100, 50)) \<and>
   length (\<lparr>pos_x = just_below_100, pos_y = 50, vel_x = 0, vel_y = 0\<rparr> #
           replicate 4999 \<lparr>pos_x = 100, pos_y = 50, vel_x = 0, vel_y = 0\<rparr>) = NUM_PARTICLES"
  using resample_cardinality [OF resample_two_hot_run] resample_two_hot_run by blast

text \<open>
  C10. Every particle of a generation that \<open>resample\<close> returns is equal, component by
  component, to a particle of the input generation: rows are replicated or dropped, never
  made up.
\<close>

theorem resample_only_replicates:
  assumes "resample ps ws rng = Inr (ps', est)"
  shows "\<forall>p'\<in>set ps'. \<exists>p\<in>set ps.
           pos_x p' = pos_x p \<and> pos_y p' = pos_y p \<and>
           vel_x p' = vel_x p \<and> vel_y p' = vel_y p"
proof
  fix p'
  assume mem: "p' \<in> set ps'"
  obtain indices where inb: "\<forall>i\<in>set indices. i < length ps"
    and rows: "ps' = map (nth ps) indices"
    using resample_shape [OF assms] by blast
  obtain i where "i \<in> set indices" "p' = ps ! i" using mem rows by auto
  then have "p' \<in> set ps" using inb by simp
  then show "\<exists>p\<in>set ps. pos_x p' = pos_x p \<and> pos_y p' = pos_y p \<and>
               vel_x p' = vel_x p \<and> vel_y p' = vel_y p"
    by blast
qed

theorem resample_only_replicates_witness:
  "resample
     (\<lparr>pos_x = just_below_100, pos_y = 50, vel_x = 0, vel_y = 0\<rparr> #
      \<lparr>pos_x = 100, pos_y = 50, vel_x = 0, vel_y = 0\<rparr> #
      replicate 4998 \<lparr>pos_x = 600, pos_y = 300, vel_x = 0, vel_y = 0\<rparr>)
     (1 # 1 # replicate 4998 0) (first_then_rng (1 / 4) (3 / 4)) =
   Inr (\<lparr>pos_x = just_below_100, pos_y = 50, vel_x = 0, vel_y = 0\<rparr> #
        replicate 4999 \<lparr>pos_x = 100, pos_y = 50, vel_x = 0, vel_y = 0\<rparr>, (100, 50)) \<and>
   list_all
     (\<lambda>p'. \<exists>p\<in>set (\<lparr>pos_x = just_below_100, pos_y = 50, vel_x = 0, vel_y = 0\<rparr> #
                     \<lparr>pos_x = 100, pos_y = 50, vel_x = 0, vel_y = 0\<rparr> #
                     replicate 4998 \<lparr>pos_x = 600, pos_y = 300, vel_x = 0, vel_y = 0\<rparr>).
            pos_x p' = pos_x p \<and> pos_y p' = pos_y p \<and>
            vel_x p' = vel_x p \<and> vel_y p' = vel_y p)
     (\<lparr>pos_x = just_below_100, pos_y = 50, vel_x = 0, vel_y = 0\<rparr> #
      replicate 4999 \<lparr>pos_x = 100, pos_y = 50, vel_x = 0, vel_y = 0\<rparr>)"
  using resample_only_replicates [OF resample_two_hot_run] resample_two_hot_run
  unfolding list_all_iff by blast

text \<open>
  C8, as the code has it. The estimate \<open>resample\<close> returns is
  \<open>(int(mx), int(my))\<close>, where \<open>mx\<close> and \<open>my\<close> are the float64 values
  \<open>np.mean\<close> computes (pairwise float64 summation, then one division) from the x and
  the y coordinates of the returned (post-resample) generation.
\<close>

theorem resample_estimate_float_mean:
  assumes "resample ps ws rng = Inr (ps', est)"
  shows "\<exists>mx my. np_mean (map pos_x ps') = Fin mx \<and> np_mean (map pos_y ps') = Fin my \<and>
           est = (py_int mx, py_int my)"
proof -
  have x: "py_int_f64 (np_mean (map pos_x ps')) = Inr (fst est)"
    and y: "py_int_f64 (np_mean (map pos_y ps')) = Inr (snd est)"
    using resample_shape [OF assms] by auto
  obtain mx where mx: "np_mean (map pos_x ps') = Fin mx" "fst est = py_int mx"
    using x by (cases "np_mean (map pos_x ps')") simp_all
  obtain my where my: "np_mean (map pos_y ps') = Fin my" "snd est = py_int my"
    using y by (cases "np_mean (map pos_y ps')") simp_all
  have "est = (py_int mx, py_int my)" using mx(2) my(2) by (cases est) simp
  with mx(1) my(1) show ?thesis by blast
qed

theorem resample_estimate_float_mean_witness:
  "resample
     (\<lparr>pos_x = just_below_100, pos_y = 50, vel_x = 0, vel_y = 0\<rparr> #
      \<lparr>pos_x = 100, pos_y = 50, vel_x = 0, vel_y = 0\<rparr> #
      replicate 4998 \<lparr>pos_x = 600, pos_y = 300, vel_x = 0, vel_y = 0\<rparr>)
     (1 # 1 # replicate 4998 0) (first_then_rng (1 / 4) (3 / 4)) =
   Inr (\<lparr>pos_x = just_below_100, pos_y = 50, vel_x = 0, vel_y = 0\<rparr> #
        replicate 4999 \<lparr>pos_x = 100, pos_y = 50, vel_x = 0, vel_y = 0\<rparr>, (100, 50)) \<and>
   (\<exists>mx my.
      np_mean (map pos_x (\<lparr>pos_x = just_below_100, pos_y = 50, vel_x = 0, vel_y = 0\<rparr> #
        replicate 4999 \<lparr>pos_x = 100, pos_y = 50, vel_x = 0, vel_y = 0\<rparr>)) = Fin mx \<and>
      np_mean (map pos_y (\<lparr>pos_x = just_below_100, pos_y = 50, vel_x = 0, vel_y = 0\<rparr> #
        replicate 4999 \<lparr>pos_x = 100, pos_y = 50, vel_x = 0, vel_y = 0\<rparr>)) = Fin my \<and>
      (100, 50) = (py_int mx, py_int my)) \<and>
   py_int (sum_list (map pos_x
     (\<lparr>pos_x = just_below_100, pos_y = 50, vel_x = 0, vel_y = 0\<rparr> #
      \<lparr>pos_x = 100, pos_y = 50, vel_x = 0, vel_y = 0\<rparr> #
      replicate 4998 \<lparr>pos_x = 600, pos_y = 300, vel_x = 0, vel_y = 0\<rparr>)) / 5000) = 599"
proof -
  have "py_int (sum_list (map pos_x
     (\<lparr>pos_x = just_below_100, pos_y = 50, vel_x = 0, vel_y = 0\<rparr> #
      \<lparr>pos_x = 100, pos_y = 50, vel_x = 0, vel_y = 0\<rparr> #
      replicate 4998 \<lparr>pos_x = 600, pos_y = 300, vel_x = 0, vel_y = 0\<rparr>)) / 5000) = 599"
    by (simp add: py_int_def sum_list_replicate just_below_100_def)
  then show ?thesis
    using resample_estimate_float_mean [OF resample_two_hot_run] resample_two_hot_run by blast
qed

text \<open>
  C8 as stated, that the estimate is the truncated arithmetic mean of the new generation,
  fails. In this run the new generation has one particle at the float64 just below 100 and
  4999 at 100: the float64 sum of the x coordinates is 500000, \<open>np.mean\<close> is 100.0 and
  the estimate is \<open>(100, 50)\<close>, while the arithmetic mean of the x coordinates is below
  100 and truncates to 99.
\<close>

theorem resample_estimate_counterexample:
  "resample
     (\<lparr>pos_x = just_below_100, pos_y = 50, vel_x = 0, vel_y = 0\<rparr> #
      \<lparr>pos_x = 100, pos_y = 50, vel_x = 0, vel_y = 0\<rparr> #
      replicate 4998 \<lparr>pos_x = 600, pos_y = 300, vel_x = 0, vel_y = 0\<rparr>)
     (1 # 1 # replicate 4998 0) (first_then_rng (1 / 4) (3 / 4)) =
   Inr (\<lparr>pos_x = just_below_100, pos_y = 50, vel_x = 0, vel_y = 0\<rparr> #
        replicate 4999 \<lparr>pos_x = 100, pos_y = 50, vel_x = 0, vel_y = 0\<rparr>, (100, 50)) \<and>
   py_int (sum_list (map pos_x
     (\<lparr>pos_x = just_below_100, pos_y = 50, vel_x = 0, vel_y = 0\<rparr> #
      replicate 4999 \<lparr>pos_x = 100, pos_y = 50, vel_x = 0, vel_y = 0\<rparr>)) /
     real (length (\<lparr>pos_x = just_below_100, pos_y = 50, vel_x = 0, vel_y = 0\<rparr> #
      replicate 4999 \<lparr>pos_x = 100, pos_y = 50, vel_x = 0, vel_y = 0\<rparr>))) = 99"
proof -
  have "py_int (sum_list (map pos_x
     (\<lparr>pos_x = just_below_100, pos_y = 50, vel_x = 0, vel_y = 0\<rparr> #
      replicate 4999 \<lparr>pos_x = 100, pos_y = 50, vel_x = 0, vel_y = 0\<rparr>)) /
     real (length (\<lparr>pos_x = just_below_100, pos_y = 50, vel_x = 0, vel_y = 0\<rparr> #
      replicate 4999 \<lparr>pos_x = 100, pos_y = 50, vel_x = 0, vel_y = 0\<rparr>))) = 99"
    by (simp add: py_int_def sum_list_replicate just_below_100_def)
  with resample_two_hot_run show ?thesis by blast
qed

text \<open>
  C1, as the code has it. For an all-zero weight vector \<open>resample\<close> has no guard and
  no fallback: it evaluates \<open>weights / np.sum(weights)\<close> with the divisor 0, every
  probability is NaN, and \<open>np.random.choice\<close> rejects them with \<open>ValueError\<close>;
  neither a particle set nor an estimate is returned.
\<close>

theorem resample_zero_weights_raises:
  assumes "length ws = NUM_PARTICLES" and "\<forall>w\<in>set ws. w = 0"
  shows "probabilities ws = replicate NUM_PARTICLES NaN \<and>
         resample ps ws rng = Inl ValueError"
proof -
  have ws: "ws = replicate NUM_PARTICLES 0"
    using assms by (metis replicate_eqI)
  show ?thesis
    unfolding ws by (simp add: probabilities_zeros resample_zeros)
qed

theorem resample_zero_weights_raises_witness:
  "length (replicate NUM_PARTICLES (0::real)) = NUM_PARTICLES \<and>
   list_all (\<lambda>w. w = 0) (replicate NUM_PARTICLES (0::real)) \<and>
   probabilities (replicate NUM_PARTICLES 0) = replicate NUM_PARTICLES NaN \<and>
   resample (replicate NUM_PARTICLES \<lparr>pos_x = 300, pos_y = 200, vel_x = 1, vel_y = 1\<rparr>)
     (replicate NUM_PARTICLES 0) (constant_rng (1 / 4)) = Inl ValueError"
proof -
  have h1: "length (replicate NUM_PARTICLES (0::real)) = NUM_PARTICLES" by simp
  have h2: "\<forall>w\<in>set (replicate NUM_PARTICLES (0::real)). w = 0" by simp
  have h2': "list_all (\<lambda>w. w = 0) (replicate NUM_PARTICLES (0::real))"
    by (simp add: list_all_iff)
  show ?thesis
    using resample_zero_weights_raises [OF h1 h2] h1 h2' by blast
qed

text \<open>
  C1 as stated, that no undefined division is performed on an all-zero weight vector,
  fails: the quotients \<open>resample\<close> computes from 5000 zero weights are all NaN, and the
  run ends in the \<open>ValueError\<close> of \<open>np.random.choice\<close>, not in a fallback that
  keeps the prior generation.
\<close>

theorem resample_zero_weights_counterexample:
  "probabilities (replicate NUM_PARTICLES 0) = replicate NUM_PARTICLES NaN \<and>
   resample (replicate NUM_PARTICLES \<lparr>pos_x = 10, pos_y = 20, vel_x = 0, vel_y = 0\<rparr>)
     (replicate NUM_PARTICLES 0) (constant_rng (1 / 2)) = Inl ValueError"
  by (simp add: probabilities_zeros resample_zeros)

end
